theory Spec2Isabelle
  imports Main "HOL-Library.Multiset"
begin

section \<open>Markdown link diagnostics: data model\<close>

text \<open>
  The development embeds \<^verbatim>\<open>languageFeatures/diagnostics.ts\<close> of the markdown
  language features extension: the \<^verbatim>\<open>DiagnosticComputer\<close> (three validation passes
  over the links of one document) and the \<^verbatim>\<open>DiagnosticManager\<close> (pending set, debounce,
  published collection).

  A \<^verbatim>\<open>vscode.Uri\<close> is host API. The file reads three things of a Uri and nothing
  else: its \<^verbatim>\<open>fsPath\<close>, its \<^verbatim>\<open>toString()\<close> and, for one message,
  \<^verbatim>\<open>toString(true)\<close>. A Uri is the record of these three observations.
\<close>

record uri =
  fsPath :: string
  toString :: string
  toStringSkipEncoding :: string

text \<open>A \<^verbatim>\<open>vscode.Range\<close>: start and end position, each a line and a character.\<close>

type_synonym Range = "(nat \<times> nat) \<times> (nat \<times> nat)"

datatype DiagnosticLevel = ignore | warning | error

datatype DiagnosticSeverity = Error | Warning | Information | Hint

record DiagnosticOptions =
  enabled :: bool
  validateReferences :: DiagnosticLevel
  validateOwnHeaders :: DiagnosticLevel
  validateFilePaths :: DiagnosticLevel

fun toSeverity :: "DiagnosticLevel \<Rightarrow> DiagnosticSeverity option" where
  "toSeverity error = Some Error"
| "toSeverity warning = Some Warning"
| "toSeverity ignore = None"

text \<open>
  A message is the call \<^verbatim>\<open>localize(key, template, arg)\<close> as written in the source:
  the key, the default template and the arguments, left unformatted.
\<close>

datatype message = localize string string "string list"

datatype Diagnostic =
  Diagnostic (diag_range: Range) (diag_message: message) (diag_severity: DiagnosticSeverity)

text \<open>
  Modelled from the spec: the link types of \<^verbatim>\<open>documentLinkProvider.ts\<close>
  (\<^verbatim>\<open>MdLink\<close>, \<^verbatim>\<open>MdLinkSource\<close>, the href kinds), which is not among the
  sources. A link has a source range and an href that is internal (a path and a
  fragment, the fragment empty when the link has none), a reference (a name) or external;
  a link definition carries the name it defines.
\<close>

datatype LinkHref =
  InternalHref uri string
| ReferenceHref string
| ExternalHref uri

record MdLinkSource =
  hrefRange :: Range

datatype MdLink =
  MdInlineLink (source: MdLinkSource) (href: LinkHref)
| MdLinkDefinition (source: MdLinkSource) (ref_name: string) (href: LinkHref)

text \<open>
  A document as the file reads it: its uri, its language id (for
  \<^verbatim>\<open>isMarkdownFile\<close>) and its content.
\<close>

record TextDocument =
  doc_uri :: uri
  languageId :: string
  content :: string

text \<open>
  A cancellation token is read at fixed places of the code; its flag may differ from one
  read to the next. The token is the function from the place of the read to the value
  read there.
\<close>

datatype checkpoint = AfterGetAllLinks | AfterOwnToc | AtFileTask string

type_synonym CancellationToken = "checkpoint \<Rightarrow> bool"

definition noopToken :: CancellationToken where
  "noopToken = (\<lambda>_. False)"

text \<open>
  The collaborators the computer is constructed with: the link provider
  (\<^verbatim>\<open>getAllLinks\<close>), the engine's table of contents
  (\<^verbatim>\<open>TableOfContents.create(engine, doc)\<close> followed by \<^verbatim>\<open>lookup(fragment)\<close>,
  read for its truthiness) and the workspace contents
  (\<^verbatim>\<open>tryFindMdDocumentForLink\<close>, \<^verbatim>\<open>pathExists\<close>).
\<close>

record Env =
  getAllLinks :: "TextDocument \<Rightarrow> MdLink list"
  tocLookup :: "TextDocument \<Rightarrow> string \<Rightarrow> bool"
  tryFindMdDocumentForLink :: "uri \<Rightarrow> TextDocument option"
  pathExists :: "uri \<Rightarrow> bool"

section \<open>DiagnosticComputer: own-header and reference passes\<close>

definition apostrophe :: char where
  "apostrophe = CHR 0x27"

definition invalidHeaderLink :: "string \<Rightarrow> message" where
  "invalidHeaderLink fragment =
     localize ''invalidHeaderLink''
       (''No header found: '' @ [apostrophe] @ ''{0}'' @ [apostrophe]) [fragment]"

definition invalidReferenceLink :: "string \<Rightarrow> message" where
  "invalidReferenceLink r =
     localize ''invalidReferenceLink''
       (''No link reference found: '' @ [apostrophe] @ ''{0}'' @ [apostrophe]) [r]"

text \<open>The loop of \<^verbatim>\<open>validateOwnHeaderLinks\<close>, pushing onto \<open>diagnostics\<close>.\<close>

fun ownHeaderLoop ::
  "Env \<Rightarrow> TextDocument \<Rightarrow> DiagnosticSeverity \<Rightarrow> MdLink list \<Rightarrow> Diagnostic list \<Rightarrow> Diagnostic list"
where
  "ownHeaderLoop env doc severity [] diagnostics = diagnostics"
| "ownHeaderLoop env doc severity (link # links) diagnostics =
     ownHeaderLoop env doc severity links
       (case href link of
          InternalHref path fragment \<Rightarrow>
            if toString path = toString (doc_uri doc) \<and> fragment \<noteq> [] \<and> \<not> tocLookup env doc fragment
            then diagnostics @ [Diagnostic (hrefRange (source link)) (invalidHeaderLink fragment) severity]
            else diagnostics
        | ReferenceHref r \<Rightarrow> diagnostics
        | ExternalHref u \<Rightarrow> diagnostics)"

definition validateOwnHeaderLinks ::
  "Env \<Rightarrow> TextDocument \<Rightarrow> DiagnosticOptions \<Rightarrow> MdLink list \<Rightarrow> CancellationToken \<Rightarrow> Diagnostic list"
where
  "validateOwnHeaderLinks env doc options links token =
     (case toSeverity (validateOwnHeaders options) of
        None \<Rightarrow> []
      | Some severity \<Rightarrow>
          if token AfterOwnToc then []
          else ownHeaderLoop env doc severity links [])"

text \<open>
  Modelled from the spec: \<^verbatim>\<open>LinkDefinitionSet\<close> of
  \<^verbatim>\<open>documentLinkProvider.ts\<close>, not among the sources: the index of the link
  definitions among a document's links by their reference name, with lookup by name.
\<close>

fun LinkDefinitionSet :: "MdLink list \<Rightarrow> (string \<rightharpoonup> MdLink) \<Rightarrow> (string \<rightharpoonup> MdLink)" where
  "LinkDefinitionSet [] m = m"
| "LinkDefinitionSet (MdLinkDefinition s n h # links) m =
     LinkDefinitionSet links (m(n \<mapsto> MdLinkDefinition s n h))"
| "LinkDefinitionSet (MdInlineLink s h # links) m = LinkDefinitionSet links m"

definition definitionSet_lookup :: "(string \<rightharpoonup> MdLink) \<Rightarrow> string \<Rightarrow> MdLink option" where
  "definitionSet_lookup definitionSet r = definitionSet r"

text \<open>The generator loop of \<^verbatim>\<open>validateReferenceLinks\<close>; each yield appends.\<close>

fun referenceLoop ::
  "(string \<rightharpoonup> MdLink) \<Rightarrow> DiagnosticSeverity \<Rightarrow> MdLink list \<Rightarrow> Diagnostic list \<Rightarrow> Diagnostic list"
where
  "referenceLoop definitionSet severity [] yielded = yielded"
| "referenceLoop definitionSet severity (link # links) yielded =
     referenceLoop definitionSet severity links
       (case href link of
          ReferenceHref r \<Rightarrow>
            if definitionSet_lookup definitionSet r = None
            then yielded @ [Diagnostic (hrefRange (source link)) (invalidReferenceLink r) severity]
            else yielded
        | InternalHref path fragment \<Rightarrow> yielded
        | ExternalHref u \<Rightarrow> yielded)"

definition validateReferenceLinks :: "DiagnosticOptions \<Rightarrow> MdLink list \<Rightarrow> Diagnostic list" where
  "validateReferenceLinks options links =
     (case toSeverity (validateReferences options) of
        None \<Rightarrow> []
      | Some severity \<Rightarrow> referenceLoop (LinkDefinitionSet links Map.empty) severity links [])"

section \<open>DiagnosticComputer: file-path pass\<close>

text \<open>
  \<^verbatim>\<open>FileLinksData\<close> and \<^verbatim>\<open>FileLinkMap\<close>. The JavaScript \<^verbatim>\<open>Map\<close>
  iterates in insertion order, so the map is an association list in that order; an
  existing entry has the new link pushed onto its array in place.
\<close>

record FileLinksData =
  fl_path :: uri
  fl_links :: "(MdLinkSource \<times> string) list"

type_synonym FileLinkMap = "(string \<times> FileLinksData) list"

fun pushLinkData :: "string \<Rightarrow> MdLinkSource \<times> string \<Rightarrow> FileLinkMap \<Rightarrow> FileLinkMap" where
  "pushLinkData fileKey linkData [] = []"
| "pushLinkData fileKey linkData ((k, e) # m) =
     (if k = fileKey then (k, e\<lparr>fl_links := fl_links e @ [linkData]\<rparr>) # m
      else (k, e) # pushLinkData fileKey linkData m)"

fun FileLinkMap_loop :: "MdLink list \<Rightarrow> FileLinkMap \<Rightarrow> FileLinkMap" where
  "FileLinkMap_loop [] m = m"
| "FileLinkMap_loop (link # links) m =
     FileLinkMap_loop links
       (case href link of
          InternalHref path fragment \<Rightarrow>
            (let fileKey = toString path;
                 linkData = (source link, fragment)
             in case map_of m fileKey of
                  Some existingFileEntry \<Rightarrow> pushLinkData fileKey linkData m
                | None \<Rightarrow> m @ [(fileKey, \<lparr>fl_path = path, fl_links = [linkData]\<rparr>)])
        | ReferenceHref r \<Rightarrow> m
        | ExternalHref u \<Rightarrow> m)"

definition FileLinkMap :: "MdLink list \<Rightarrow> FileLinkMap" where
  "FileLinkMap links = FileLinkMap_loop links []"

definition FileLinkMap_size :: "FileLinkMap \<Rightarrow> nat" where
  "FileLinkMap_size m = length m"

definition FileLinkMap_entries :: "FileLinkMap \<Rightarrow> FileLinksData list" where
  "FileLinkMap_entries m = map snd m"

definition invalidPathLink :: "uri \<Rightarrow> message" where
  "invalidPathLink path =
     localize ''invalidPathLink'' ''File does not exist at path: {0}'' [toStringSkipEncoding path]"

definition invalidLinkToHeaderInOtherFile :: "string \<Rightarrow> message" where
  "invalidLinkToHeaderInOtherFile fragment =
     localize ''invalidLinkToHeaderInOtherFile'' ''Header does not exist in file: {0}'' [fragment]"

text \<open>The calls one task makes on its collaborators, in the order it makes them.\<close>

datatype OracleCall =
  FindMdDocument uri
| PathExists uri
| CreateToc TextDocument

fun otherFileHeaderLoop ::
  "Env \<Rightarrow> TextDocument \<Rightarrow> DiagnosticSeverity \<Rightarrow> (MdLinkSource \<times> string) list \<Rightarrow>
   Diagnostic list \<Rightarrow> Diagnostic list"
where
  "otherFileHeaderLoop env hrefDoc severity [] diagnostics = diagnostics"
| "otherFileHeaderLoop env hrefDoc severity (link # fragmentLinks) diagnostics =
     otherFileHeaderLoop env hrefDoc severity fragmentLinks
       (if \<not> tocLookup env hrefDoc (snd link)
        then diagnostics @
          [Diagnostic (hrefRange (fst link)) (invalidLinkToHeaderInOtherFile (snd link)) severity]
        else diagnostics)"

text \<open>
  The body of the task queued for one entry of the link map (the async closure of
  \<^verbatim>\<open>validateFileLinks\<close>): the calls it makes and the diagnostics it pushes. Every
  push of one task happens after its last await, so the pushes of one task are
  contiguous in the shared array.
\<close>

definition fileTask ::
  "Env \<Rightarrow> TextDocument \<Rightarrow> DiagnosticSeverity \<Rightarrow> CancellationToken \<Rightarrow> FileLinksData \<Rightarrow>
   OracleCall list \<times> Diagnostic list"
where
  "fileTask env doc severity token entry =
     (let path = fl_path entry; links = fl_links entry in
      if token (AtFileTask (toString path)) then ([], [])
      else
        case tryFindMdDocumentForLink env path of
          Some hrefDoc \<Rightarrow>
            if toString (doc_uri hrefDoc) = toString (doc_uri doc) then ([FindMdDocument path], [])
            else
              (let fragmentLinks = filter (\<lambda>x. snd x \<noteq> []) links in
               if length fragmentLinks \<noteq> 0
               then ([FindMdDocument path, CreateToc hrefDoc],
                     otherFileHeaderLoop env hrefDoc severity fragmentLinks [])
               else ([FindMdDocument path], []))
        | None \<Rightarrow>
            if \<not> pathExists env path
            then ([FindMdDocument path, PathExists path],
                  map (\<lambda>link. Diagnostic (hrefRange (fst link)) (invalidPathLink path) severity) links)
            else ([FindMdDocument path, PathExists path], []))"

text \<open>
  Modelled from the spec: the \<^verbatim>\<open>Limiter\<close> of \<^verbatim>\<open>util/limiter.ts\<close>, not among the
  sources. It caps the tasks in flight at its bound; further tasks queue and are started in
  submission order as slots free up. \<open>outstanding\<close> holds the queued tasks, \<open>running\<close>
  the tasks in flight, each task standing for the entry it was queued for. \<open>pushed\<close> is
  the shared \<^verbatim>\<open>diagnostics\<close> array of \<^verbatim>\<open>validateFileLinks\<close> and \<open>calls\<close> the log of
  collaborator calls made by the tasks that have settled.
\<close>

record FileRun =
  outstanding :: "FileLinksData list"
  running :: "FileLinksData list"
  pushed :: "Diagnostic list"
  calls :: "OracleCall list"

definition emptyRun :: FileRun where
  "emptyRun = \<lparr>outstanding = [], running = [], pushed = [], calls = []\<rparr>"

fun consume :: "nat \<Rightarrow> 'a list \<Rightarrow> 'a list \<Rightarrow> 'a list \<times> 'a list" where
  "consume bound [] run = ([], run)"
| "consume bound (t # out) run =
     (if length run < bound then consume bound out (run @ [t]) else (t # out, run))"

definition Limiter_queue :: "nat \<Rightarrow> FileLinksData \<Rightarrow> FileRun \<Rightarrow> FileRun" where
  "Limiter_queue bound t s =
     (case consume bound (outstanding s @ [t]) (running s) of
        (out, run) \<Rightarrow> s\<lparr>outstanding := out, running := run\<rparr>)"

text \<open>
  The task at position \<open>i\<close> of \<open>running\<close> settles: its pushes and calls take effect, its
  slot is freed and the limiter starts queued tasks. A position past the end settles
  nothing.
\<close>

definition settle ::
  "nat \<Rightarrow> (FileLinksData \<Rightarrow> OracleCall list \<times> Diagnostic list) \<Rightarrow> nat \<Rightarrow> FileRun \<Rightarrow> FileRun"
where
  "settle bound task i s =
     (if i < length (running s) then
        (case task (running s ! i) of
           (cs, ds) \<Rightarrow>
             (case consume bound (outstanding s) (take i (running s) @ drop (Suc i) (running s)) of
                (out, run) \<Rightarrow>
                  \<lparr>outstanding = out, running = run, pushed = pushed s @ ds, calls = calls s @ cs\<rparr>))
      else s)"

text \<open>
  Which task settles next is decided by the collaborators' timing, not by the code. A
  schedule lists, step by step, the position in \<open>running\<close> of the task that settles
  next; a position that does not exist, or an exhausted schedule, stands for position 0.
\<close>

definition nextChoice :: "nat list \<Rightarrow> nat \<Rightarrow> nat" where
  "nextChoice sched k = (case sched of [] \<Rightarrow> 0 | c # cs \<Rightarrow> if c < k then c else 0)"

function runAll ::
  "nat \<Rightarrow> (FileLinksData \<Rightarrow> OracleCall list \<times> Diagnostic list) \<Rightarrow> nat list \<Rightarrow> FileRun \<Rightarrow> FileRun"
where
  "runAll bound task sched s =
     (if running s = [] then s
      else runAll bound task (tl sched) (settle bound task (nextChoice sched (length (running s))) s))"
  by pat_completeness auto

termination
proof (relation "measure (\<lambda>(bound, task, sched, s). length (outstanding s) + length (running s))")
  show "wf (measure (\<lambda>(bound, task, sched, s). length (outstanding s) + length (running s)))"
    by simp
next
  fix bound :: nat
    and task :: "FileLinksData \<Rightarrow> OracleCall list \<times> Diagnostic list"
    and sched :: "nat list"
    and s :: FileRun
  assume busy: "running s \<noteq> []"
  have total: "length (fst (consume b out run)) + length (snd (consume b out run)) =
      length out + length run" for b :: nat and out run :: "FileLinksData list"
    by (induction out arbitrary: run) auto
  define i where "i = nextChoice sched (length (running s))"
  have i: "i < length (running s)"
    using busy by (auto simp: i_def nextChoice_def split: list.splits)
  define rest where "rest = take i (running s) @ drop (Suc i) (running s)"
  have rest: "Suc (length rest) = length (running s)"
    using i by (simp add: rest_def)
  have "length (outstanding (settle bound task i s)) + length (running (settle bound task i s)) =
      length (fst (consume bound (outstanding s) rest)) + length (snd (consume bound (outstanding s) rest))"
    using i by (simp add: settle_def rest_def split: prod.splits)
  also have "\<dots> = length (outstanding s) + length rest"
    by (rule total)
  finally have "length (outstanding (settle bound task i s)) + length (running (settle bound task i s)) <
      length (outstanding s) + length (running s)"
    using rest by simp
  then show "((bound, task, tl sched, settle bound task (nextChoice sched (length (running s))) s),
        (bound, task, sched, s))
      \<in> measure (\<lambda>(bound, task, sched, s). length (outstanding s) + length (running s))"
    by (simp add: i_def)
qed

declare runAll.simps [simp del]

text \<open>
  \<^verbatim>\<open>validateFileLinks\<close>: the mapping over the entries queues every task before any
  of them can settle; \<^verbatim>\<open>Promise.all\<close> then waits until all have settled. The result
  of the function is the shared array.
\<close>

definition validateFileLinks_run ::
  "Env \<Rightarrow> nat list \<Rightarrow> TextDocument \<Rightarrow> DiagnosticOptions \<Rightarrow> MdLink list \<Rightarrow> CancellationToken \<Rightarrow> FileRun"
where
  "validateFileLinks_run env sched doc options links token =
     (case toSeverity (validateFilePaths options) of
        None \<Rightarrow> emptyRun
      | Some severity \<Rightarrow>
          (let linkSet = FileLinkMap links in
           if FileLinkMap_size linkSet = 0 then emptyRun
           else runAll 10 (fileTask env doc severity token) sched
                  (fold (Limiter_queue 10) (FileLinkMap_entries linkSet) emptyRun)))"

definition validateFileLinks ::
  "Env \<Rightarrow> nat list \<Rightarrow> TextDocument \<Rightarrow> DiagnosticOptions \<Rightarrow> MdLink list \<Rightarrow> CancellationToken \<Rightarrow>
   Diagnostic list"
where
  "validateFileLinks env sched doc options links token =
     pushed (validateFileLinks_run env sched doc options links token)"

text \<open>The states a run of the queued tasks can pass through, whatever settles when.\<close>

inductive reachable ::
  "nat \<Rightarrow> (FileLinksData \<Rightarrow> OracleCall list \<times> Diagnostic list) \<Rightarrow> FileRun \<Rightarrow> FileRun \<Rightarrow> bool"
  for bound task s0
where
  start: "reachable bound task s0 s0"
| settled: "reachable bound task s0 s \<Longrightarrow> i < length (running s) \<Longrightarrow>
     reachable bound task s0 (settle bound task i s)"

text \<open>
  \<^verbatim>\<open>DiagnosticComputer.getDiagnostics\<close>: the three passes, flattened in the order of
  the array given to \<^verbatim>\<open>Promise.all\<close>.
\<close>

definition DiagnosticComputer_getDiagnostics ::
  "Env \<Rightarrow> nat list \<Rightarrow> TextDocument \<Rightarrow> DiagnosticOptions \<Rightarrow> CancellationToken \<Rightarrow> Diagnostic list"
where
  "DiagnosticComputer_getDiagnostics env sched doc options token =
     (let links = getAllLinks env doc in
      if token AfterGetAllLinks then []
      else concat
        [validateFileLinks env sched doc options links token,
         validateReferenceLinks options links,
         validateOwnHeaderLinks env doc options links token])"

section \<open>DiagnosticManager\<close>

text \<open>
  Modelled from the spec: \<^verbatim>\<open>isMarkdownFile\<close> of \<^verbatim>\<open>util/file.ts\<close>, not among the
  sources: the document is of markdown kind.
\<close>

definition isMarkdownFile :: "TextDocument \<Rightarrow> bool" where
  "isMarkdownFile doc = (languageId doc = ''markdown'')"

text \<open>
  What the manager reads of the host when a handler runs: the open text documents, the
  tab groups (a tab's input is a \<^verbatim>\<open>TabInputText\<close> with a uri, or something else) and
  the configuration's \<^verbatim>\<open>getOptions\<close>.
\<close>

datatype TabInput = TabInputText uri | TabInputOther

record Tab =
  input :: TabInput

record TabGroup =
  tabs :: "Tab list"

record World =
  textDocuments :: "TextDocument list"
  tabGroups_all :: "TabGroup list"
  getOptions :: "uri \<Rightarrow> DiagnosticOptions"

text \<open>The computer the manager is constructed with, as the function it calls.\<close>

type_synonym Computer =
  "TextDocument \<Rightarrow> DiagnosticOptions \<Rightarrow> CancellationToken \<Rightarrow> Diagnostic list"

text \<open>
  The manager's fields. \<open>pendingDiagnostics\<close> is the \<^verbatim>\<open>Set\<close> of uris in insertion
  order (a document hands out one Uri object, so membership by identity is membership by
  value). \<open>delayerArmed\<close> says that the delayer holds a triggered task. \<open>inFlight\<close>
  holds the calls of \<^verbatim>\<open>update\<close> that have started and not yet come back from
  their await: the uri they will publish under and the diagnostics they will publish.
\<close>

record ManagerState =
  collection :: "uri \<rightharpoonup> Diagnostic list"
  pendingDiagnostics :: "uri list"
  delayerArmed :: bool
  inFlight :: "(uri \<times> Diagnostic list) list"

definition Set_add :: "'a \<Rightarrow> 'a list \<Rightarrow> 'a list" where
  "Set_add x xs = (if x \<in> set xs then xs else xs @ [x])"

definition Set_delete :: "'a \<Rightarrow> 'a list \<Rightarrow> 'a list" where
  "Set_delete x xs = removeAll x xs"

text \<open>
  \<^verbatim>\<open>DiagnosticManager.getDiagnostics\<close>, with the calls it makes on the computer: each
  call is logged with the document and the options it is given. The result of the method
  is the second component.
\<close>

type_synonym ComputerCall = "TextDocument \<times> DiagnosticOptions"

definition DiagnosticManager_getDiagnostics_run ::
  "Computer \<Rightarrow> World \<Rightarrow> TextDocument \<Rightarrow> CancellationToken \<Rightarrow>
   ComputerCall list \<times> Diagnostic list"
where
  "DiagnosticManager_getDiagnostics_run computer w doc token =
     (let config = getOptions w (doc_uri doc) in
      if \<not> enabled config then ([], [])
      else ([(doc, config)], computer doc config token))"

definition DiagnosticManager_getDiagnostics ::
  "Computer \<Rightarrow> World \<Rightarrow> TextDocument \<Rightarrow> CancellationToken \<Rightarrow> Diagnostic list"
where
  "DiagnosticManager_getDiagnostics computer w doc token =
     snd (DiagnosticManager_getDiagnostics_run computer w doc token)"

text \<open>
  \<^verbatim>\<open>update\<close> up to its await: the computation is started with the options and the
  document of this moment. \<open>updateResolved\<close> is the rest of \<^verbatim>\<open>update\<close>, run when
  the computation at position \<open>i\<close> of \<open>inFlight\<close> comes back:
  \<^verbatim>\<open>this.collection.set(doc.uri, diagnostics)\<close>.
\<close>

definition update :: "Computer \<Rightarrow> World \<Rightarrow> TextDocument \<Rightarrow> ManagerState \<Rightarrow> ManagerState" where
  "update computer w doc s =
     s\<lparr>inFlight := inFlight s @
         [(doc_uri doc, DiagnosticManager_getDiagnostics computer w doc noopToken)]\<rparr>"

definition updateResolved :: "nat \<Rightarrow> ManagerState \<Rightarrow> ManagerState" where
  "updateResolved i s =
     (if i < length (inFlight s) then
        (case inFlight s ! i of
           (resource, diagnostics) \<Rightarrow>
             s\<lparr>collection := (collection s)(resource \<mapsto> diagnostics),
               inFlight := take i (inFlight s) @ drop (Suc i) (inFlight s)\<rparr>)
      else s)"

definition onDocUpdated :: "TextDocument \<Rightarrow> ManagerState \<Rightarrow> ManagerState" where
  "onDocUpdated doc s =
     (if isMarkdownFile doc
      then s\<lparr>pendingDiagnostics := Set_add (doc_uri doc) (pendingDiagnostics s), delayerArmed := True\<rparr>
      else s)"

definition onDidCloseTextDocument :: "TextDocument \<Rightarrow> ManagerState \<Rightarrow> ManagerState" where
  "onDidCloseTextDocument doc s =
     s\<lparr>pendingDiagnostics := Set_delete (doc_uri doc) (pendingDiagnostics s),
       collection := (collection s)(doc_uri doc := None)\<rparr>"

fun recomputeLoop :: "Computer \<Rightarrow> World \<Rightarrow> uri list \<Rightarrow> ManagerState \<Rightarrow> ManagerState" where
  "recomputeLoop computer w [] s = s"
| "recomputeLoop computer w (resource # pending) s =
     recomputeLoop computer w pending
       (case find (\<lambda>doc. fsPath (doc_uri doc) = fsPath resource) (textDocuments w) of
          Some doc \<Rightarrow> update computer w doc s
        | None \<Rightarrow> s)"

definition recomputePendingDiagnostics :: "Computer \<Rightarrow> World \<Rightarrow> ManagerState \<Rightarrow> ManagerState" where
  "recomputePendingDiagnostics computer w s =
     (let pending = pendingDiagnostics s in
      recomputeLoop computer w pending (s\<lparr>pendingDiagnostics := []\<rparr>))"

fun tabsLoop :: "Tab list \<Rightarrow> (string \<rightharpoonup> uri) \<Rightarrow> (string \<rightharpoonup> uri)" where
  "tabsLoop [] openedTabDocs = openedTabDocs"
| "tabsLoop (tab # rest) openedTabDocs =
     tabsLoop rest
       (case input tab of
          TabInputText u \<Rightarrow> openedTabDocs(toString u \<mapsto> u)
        | TabInputOther \<Rightarrow> openedTabDocs)"

fun groupsLoop :: "TabGroup list \<Rightarrow> (string \<rightharpoonup> uri) \<Rightarrow> (string \<rightharpoonup> uri)" where
  "groupsLoop [] openedTabDocs = openedTabDocs"
| "groupsLoop (tabGroup # rest) openedTabDocs =
     groupsLoop rest (tabsLoop (tabs tabGroup) openedTabDocs)"

definition getAllTabResources :: "World \<Rightarrow> (string \<rightharpoonup> uri)" where
  "getAllTabResources w = groupsLoop (tabGroups_all w) Map.empty"

text \<open>
  \<^verbatim>\<open>rebuild\<close> up to its await: the collection is cleared and one \<^verbatim>\<open>update\<close> is
  started for every selected document, in the order of \<^verbatim>\<open>textDocuments\<close>.
\<close>

definition rebuild :: "Computer \<Rightarrow> World \<Rightarrow> ManagerState \<Rightarrow> ManagerState" where
  "rebuild computer w s =
     (let allOpenedTabResources = getAllTabResources w in
      fold (update computer w)
        (filter (\<lambda>doc. allOpenedTabResources (toString (doc_uri doc)) \<noteq> None \<and> isMarkdownFile doc)
           (textDocuments w))
        (s\<lparr>collection := Map.empty\<rparr>))"

definition DiagnosticManager_new :: "Computer \<Rightarrow> World \<Rightarrow> ManagerState" where
  "DiagnosticManager_new computer w =
     rebuild computer w
       \<lparr>collection = Map.empty, pendingDiagnostics = [], delayerArmed = False, inFlight = []\<rparr>"

text \<open>
  The events the manager reacts to. The delayer's timer is not modelled in time: it
  fires at some moment after a trigger and then runs the task it holds.
\<close>

datatype Event =
  DidOpenTextDocument TextDocument
| DidChangeTextDocument TextDocument
| DidCloseTextDocument TextDocument
| ConfigurationDidChange
| DelayerFired
| UpdateResolved nat

fun handle :: "Computer \<Rightarrow> World \<Rightarrow> Event \<Rightarrow> ManagerState \<Rightarrow> ManagerState" where
  "handle computer w (DidOpenTextDocument doc) s = onDocUpdated doc s"
| "handle computer w (DidChangeTextDocument doc) s = onDocUpdated doc s"
| "handle computer w (DidCloseTextDocument doc) s = onDidCloseTextDocument doc s"
| "handle computer w ConfigurationDidChange s = rebuild computer w s"
| "handle computer w DelayerFired s =
     (if delayerArmed s then recomputePendingDiagnostics computer w (s\<lparr>delayerArmed := False\<rparr>) else s)"
| "handle computer w (UpdateResolved i) s = updateResolved i s"

fun handleAll :: "Computer \<Rightarrow> (World \<times> Event) list \<Rightarrow> ManagerState \<Rightarrow> ManagerState" where
  "handleAll computer [] s = s"
| "handleAll computer ((w, ev) # rest) s = handleAll computer rest (handle computer w ev s)"

text \<open>What the collection shows for a uri: its entry, or nothing.\<close>

definition published :: "ManagerState \<Rightarrow> uri \<Rightarrow> Diagnostic list" where
  "published s resource = (case collection s resource of None \<Rightarrow> [] | Some diagnostics \<Rightarrow> diagnostics)"

text \<open>
  \<^verbatim>\<open>VSCodeDiagnosticConfiguration\<close>, the configuration that \<^verbatim>\<open>register\<close> gives
  the manager. Its constructor subscribes to the workspace's configuration changes; a
  change event \<^verbatim>\<open>e\<close> is read through \<^verbatim>\<open>e.affectsConfiguration(section)\<close> and
  fires \<^verbatim>\<open>onDidChange\<close> when it affects the \<^verbatim>\<open>enabled\<close> setting.
\<close>

definition VSCodeDiagnosticConfiguration_fires :: "(string \<Rightarrow> bool) \<Rightarrow> bool" where
  "VSCodeDiagnosticConfiguration_fires affectsConfiguration =
     affectsConfiguration ''markdown.experimental.validate.enabled''"

text \<open>
  What a workspace configuration change does to the manager as \<^verbatim>\<open>register\<close> wires
  it: when the configuration fires \<^verbatim>\<open>onDidChange\<close>, the manager's handler of that
  event runs; otherwise nothing runs. \<open>w\<close> is the host after the change, with the new
  options.
\<close>

definition onDidChangeConfiguration ::
  "Computer \<Rightarrow> World \<Rightarrow> (string \<Rightarrow> bool) \<Rightarrow> ManagerState \<Rightarrow> ManagerState"
where
  "onDidChangeConfiguration computer w affectsConfiguration s =
     (if VSCodeDiagnosticConfiguration_fires affectsConfiguration
      then handle computer w ConfigurationDidChange s
      else s)"

section \<open>Notions of the specification\<close>

text \<open>
  The notions the properties below are stated with, each following the words of the
  specification: which link is an undefined reference, which link is a broken link to a
  header of the document itself.
\<close>

definition referenceName :: "MdLink \<Rightarrow> string" where
  "referenceName link = (case href link of ReferenceHref r \<Rightarrow> r | InternalHref p f \<Rightarrow> [] | ExternalHref u \<Rightarrow> [])"

definition definesReference :: "string \<Rightarrow> MdLink \<Rightarrow> bool" where
  "definesReference r link = (case link of MdLinkDefinition s n h \<Rightarrow> n = r | MdInlineLink s h \<Rightarrow> False)"

definition undefinedReference :: "MdLink list \<Rightarrow> MdLink \<Rightarrow> bool" where
  "undefinedReference links link =
     (case href link of
        ReferenceHref r \<Rightarrow> \<not> list_ex (definesReference r) links
      | InternalHref p f \<Rightarrow> False
      | ExternalHref u \<Rightarrow> False)"

definition linkFragment :: "MdLink \<Rightarrow> string" where
  "linkFragment link = (case href link of InternalHref p f \<Rightarrow> f | ReferenceHref r \<Rightarrow> [] | ExternalHref u \<Rightarrow> [])"

definition brokenOwnHeaderLink :: "Env \<Rightarrow> TextDocument \<Rightarrow> MdLink \<Rightarrow> bool" where
  "brokenOwnHeaderLink env doc link =
     (case href link of
        InternalHref p f \<Rightarrow> toString p = toString (doc_uri doc) \<and> f \<noteq> [] \<and> \<not> tocLookup env doc f
      | ReferenceHref r \<Rightarrow> False
      | ExternalHref u \<Rightarrow> False)"

text \<open>
  For the file-path pass: the link sites of a document that refer to the target with a
  given key (the string form of the target's uri), in document order, and the uris those
  links carry.
\<close>

definition linkDataFor :: "string \<Rightarrow> MdLink \<Rightarrow> (MdLinkSource \<times> string) list" where
  "linkDataFor k link =
     (case href link of
        InternalHref p f \<Rightarrow> if toString p = k then [(source link, f)] else []
      | ReferenceHref r \<Rightarrow> []
      | ExternalHref u \<Rightarrow> [])"

definition linksTo :: "string \<Rightarrow> MdLink list \<Rightarrow> (MdLinkSource \<times> string) list" where
  "linksTo k links = concat (map (linkDataFor k) links)"

definition targetFor :: "string \<Rightarrow> MdLink \<Rightarrow> uri list" where
  "targetFor k link =
     (case href link of
        InternalHref p f \<Rightarrow> if toString p = k then [p] else []
      | ReferenceHref r \<Rightarrow> []
      | ExternalHref u \<Rightarrow> [])"

definition targetsWith :: "string \<Rightarrow> MdLink list \<Rightarrow> uri list" where
  "targetsWith k links = concat (map (targetFor k) links)"

text \<open>
  What the file-path pass owes for one target, in the words of the specification: nothing
  when the target resolves to the validated document itself; when it resolves to another
  markdown document, one "header does not exist" diagnostic for each referencing link
  whose non-empty fragment is absent from that document's table of contents; when it
  resolves to no markdown document and the path does not exist, one "file does not
  exist" diagnostic for each referencing link; nothing when the path exists. A task that
  reads its token as cancelled owes nothing.
\<close>

definition targetDiagnostics ::
  "Env \<Rightarrow> TextDocument \<Rightarrow> DiagnosticSeverity \<Rightarrow> FileLinksData \<Rightarrow> Diagnostic list"
where
  "targetDiagnostics env doc severity e =
     (case tryFindMdDocumentForLink env (fl_path e) of
        Some hrefDoc \<Rightarrow>
          if toString (doc_uri hrefDoc) = toString (doc_uri doc) then []
          else map (\<lambda>l. Diagnostic (hrefRange (fst l)) (invalidLinkToHeaderInOtherFile (snd l)) severity)
                 (filter (\<lambda>l. snd l \<noteq> [] \<and> \<not> tocLookup env hrefDoc (snd l)) (fl_links e))
      | None \<Rightarrow>
          if pathExists env (fl_path e) then []
          else map (\<lambda>l. Diagnostic (hrefRange (fst l)) (invalidPathLink (fl_path e)) severity)
                 (fl_links e))"

definition taskDiagnostics ::
  "Env \<Rightarrow> TextDocument \<Rightarrow> DiagnosticSeverity \<Rightarrow> CancellationToken \<Rightarrow> FileLinksData \<Rightarrow> Diagnostic list"
where
  "taskDiagnostics env doc severity token e =
     (if token (AtFileTask (toString (fl_path e))) then [] else targetDiagnostics env doc severity e)"

text \<open>The run of \<^verbatim>\<open>validateFileLinks\<close> once every task has been queued.\<close>

definition queuedRun :: "MdLink list \<Rightarrow> FileRun" where
  "queuedRun links = fold (Limiter_queue 10) (FileLinkMap_entries (FileLinkMap links)) emptyRun"

text \<open>
  For the manager: the computation one call of \<^verbatim>\<open>update\<close> starts for a document;
  what the debounce callback starts for one pending uri (the computation for the first
  open document with the same \<^verbatim>\<open>fsPath\<close>, or nothing); and the documents a rebuild
  selects: markdown documents shown by a text tab of some tab group.
\<close>

definition started :: "Computer \<Rightarrow> World \<Rightarrow> TextDocument \<Rightarrow> uri \<times> Diagnostic list" where
  "started computer w doc = (doc_uri doc, DiagnosticManager_getDiagnostics computer w doc noopToken)"

definition startedFor :: "Computer \<Rightarrow> World \<Rightarrow> uri \<Rightarrow> (uri \<times> Diagnostic list) list" where
  "startedFor computer w resource =
     (case find (\<lambda>doc. fsPath (doc_uri doc) = fsPath resource) (textDocuments w) of
        None \<Rightarrow> []
      | Some doc \<Rightarrow> [started computer w doc])"

definition tabShows :: "string \<Rightarrow> Tab \<Rightarrow> bool" where
  "tabShows k tab = (case input tab of TabInputText u \<Rightarrow> toString u = k | TabInputOther \<Rightarrow> False)"

definition inTextTab :: "World \<Rightarrow> TextDocument \<Rightarrow> bool" where
  "inTextTab w doc =
     list_ex (\<lambda>tabGroup. list_ex (tabShows (toString (doc_uri doc))) (tabs tabGroup)) (tabGroups_all w)"

definition visibleMarkdownDocuments :: "World \<Rightarrow> TextDocument list" where
  "visibleMarkdownDocuments w = filter (\<lambda>doc. inTextTab w doc \<and> isMarkdownFile doc) (textDocuments w)"

text \<open>
  The computations in flight come back one after the other, in the order in which they
  were started.
\<close>

fun resolveFirst :: "nat \<Rightarrow> ManagerState \<Rightarrow> ManagerState" where
  "resolveFirst 0 s = s"
| "resolveFirst (Suc n) s = resolveFirst n (updateResolved 0 s)"

definition resolveAll :: "ManagerState \<Rightarrow> ManagerState" where
  "resolveAll s = resolveFirst (length (inFlight s)) s"

section \<open>A sample document\<close>

text \<open>
  One document with a link to a header of its own, a reference link and a link to another
  file: \<^verbatim>\<open>[text](#missing) [text][undefined-ref] [text](./missing.md)\<close>. The
  collaborators are set by the links the link provider returns and by two flags: whether
  the document has the header \<^verbatim>\<open>missing\<close>, and whether paths exist on disk.
  No other markdown document is known to the workspace.
\<close>

definition ex_docUri :: uri where
  "ex_docUri = \<lparr>fsPath = ''/ws/doc.md'', toString = ''file:///ws/doc.md'',
     toStringSkipEncoding = ''file:///ws/doc.md''\<rparr>"

definition ex_missingUri :: uri where
  "ex_missingUri = \<lparr>fsPath = ''/ws/missing.md'', toString = ''file:///ws/missing.md'',
     toStringSkipEncoding = ''file:///ws/missing.md''\<rparr>"

definition ex_url :: uri where
  "ex_url = \<lparr>fsPath = ''/'', toString = ''https://example.com/'',
     toStringSkipEncoding = ''https://example.com/''\<rparr>"

definition ex_doc :: TextDocument where
  "ex_doc = \<lparr>doc_uri = ex_docUri, languageId = ''markdown'',
     content = ''[text](#missing) [text][undefined-ref] [text](./missing.md)''\<rparr>"

definition ex_ownLink :: MdLink where
  "ex_ownLink = MdInlineLink \<lparr>hrefRange = ((0, 7), (0, 15))\<rparr> (InternalHref ex_docUri ''missing'')"

definition ex_refLink :: MdLink where
  "ex_refLink = MdInlineLink \<lparr>hrefRange = ((0, 24), (0, 37))\<rparr> (ReferenceHref ''undefined-ref'')"

definition ex_fileLink :: MdLink where
  "ex_fileLink = MdInlineLink \<lparr>hrefRange = ((0, 46), (0, 58))\<rparr> (InternalHref ex_missingUri [])"

definition ex_refDefinition :: MdLink where
  "ex_refDefinition =
     MdLinkDefinition \<lparr>hrefRange = ((1, 17), (1, 37))\<rparr> ''undefined-ref'' (ExternalHref ex_url)"

definition ex_links :: "MdLink list" where
  "ex_links = [ex_ownLink, ex_refLink, ex_fileLink]"

definition ex_env :: "MdLink list \<Rightarrow> bool \<Rightarrow> bool \<Rightarrow> Env" where
  "ex_env links hasHeader fileExists =
     \<lparr>getAllLinks = (\<lambda>d. links),
      tocLookup = (\<lambda>d fragment. hasHeader \<and> fragment = ''missing''),
      tryFindMdDocumentForLink = (\<lambda>u. if toString u = toString ex_docUri then Some ex_doc else None),
      pathExists = (\<lambda>u. fileExists)\<rparr>"

definition ex_options :: "bool \<Rightarrow> DiagnosticLevel \<Rightarrow> DiagnosticOptions" where
  "ex_options on level =
     \<lparr>enabled = on, validateReferences = level, validateOwnHeaders = level,
      validateFilePaths = level\<rparr>"

text \<open>
  Documents with many targets: link \<open>n\<close> points to the file whose name is \<open>n + 1\<close>
  letters \<^verbatim>\<open>a\<close>.
\<close>

definition ex_target :: "nat \<Rightarrow> uri" where
  "ex_target n =
     \<lparr>fsPath = ''/ws/'' @ replicate (Suc n) (CHR ''a'') @ ''.md'',
      toString = ''file:///ws/'' @ replicate (Suc n) (CHR ''a'') @ ''.md'',
      toStringSkipEncoding = ''file:///ws/'' @ replicate (Suc n) (CHR ''a'') @ ''.md''\<rparr>"

definition ex_targetLink :: "nat \<Rightarrow> MdLink" where
  "ex_targetLink n = MdInlineLink \<lparr>hrefRange = ((n, 7), (n, 12 + n))\<rparr> (InternalHref (ex_target n) [])"

definition ex_twoLinks :: "MdLink list" where
  "ex_twoLinks = [ex_targetLink 0, ex_targetLink 1]"

definition ex_manyLinks :: "MdLink list" where
  "ex_manyLinks = map ex_targetLink [0, 1, 2, 3, 4, 5, 6, 7, 8, 9, 10, 11]"

text \<open>
  A second markdown document known to the workspace, without headers, and a link from the
  sample document to a header of it: \<^verbatim>\<open>[text](./other.md#nope)\<close>.
\<close>

definition ex_otherUri :: uri where
  "ex_otherUri = \<lparr>fsPath = ''/ws/other.md'', toString = ''file:///ws/other.md'',
     toStringSkipEncoding = ''file:///ws/other.md''\<rparr>"

definition ex_otherDoc :: TextDocument where
  "ex_otherDoc = \<lparr>doc_uri = ex_otherUri, languageId = ''markdown'', content = ''plain text''\<rparr>"

definition ex_otherLink :: MdLink where
  "ex_otherLink = MdInlineLink \<lparr>hrefRange = ((2, 7), (2, 22))\<rparr> (InternalHref ex_otherUri ''nope'')"

definition ex_envOther :: Env where
  "ex_envOther =
     \<lparr>getAllLinks = (\<lambda>d. [ex_otherLink]),
      tocLookup = (\<lambda>d fragment. False),
      tryFindMdDocumentForLink =
        (\<lambda>u. if toString u = toString ex_otherUri then Some ex_otherDoc else None),
      pathExists = (\<lambda>u. True)\<rparr>"

text \<open>
  The sample document as a second open document of another scheme, as a source-control
  view opens it: the same \<^verbatim>\<open>fsPath\<close>, another uri.
\<close>

definition ex_gitUri :: uri where
  "ex_gitUri = \<lparr>fsPath = ''/ws/doc.md'', toString = ''git:/ws/doc.md?ref%3DHEAD'',
     toStringSkipEncoding = ''git:/ws/doc.md?ref=HEAD''\<rparr>"

definition ex_gitDoc :: TextDocument where
  "ex_gitDoc = \<lparr>doc_uri = ex_gitUri, languageId = ''markdown'', content = ''committed text''\<rparr>"

text \<open>
  A host with the sample document open in a text tab, every resource configured with the
  given flag and level.
\<close>

definition ex_world :: "bool \<Rightarrow> DiagnosticLevel \<Rightarrow> World" where
  "ex_world on level =
     \<lparr>textDocuments = [ex_doc],
      tabGroups_all = [\<lparr>tabs = [\<lparr>input = TabInputText ex_docUri\<rparr>]\<rparr>],
      getOptions = (\<lambda>u. ex_options on level)\<rparr>"

definition ex_worldGit :: World where
  "ex_worldGit =
     \<lparr>textDocuments = [ex_gitDoc, ex_doc],
      tabGroups_all = [\<lparr>tabs = [\<lparr>input = TabInputText ex_docUri\<rparr>]\<rparr>],
      getOptions = (\<lambda>u. ex_options True error)\<rparr>"

text \<open>The computer over the sample collaborators, tasks settling in submission order.\<close>

definition ex_computer :: Computer where
  "ex_computer = DiagnosticComputer_getDiagnostics (ex_env ex_links False False) []"

definition ex_idle :: ManagerState where
  "ex_idle = \<lparr>collection = Map.empty, pendingDiagnostics = [], delayerArmed = False, inFlight = []\<rparr>"

text \<open>A manager that has published one diagnostic for the sample document.\<close>

definition ex_published :: ManagerState where
  "ex_published =
     ex_idle\<lparr>collection :=
       [ex_docUri \<mapsto> [Diagnostic ((0, 7), (0, 15)) (invalidHeaderLink ''missing'') Error]]\<rparr>"

text \<open>A host without open documents, as when the manager is constructed.\<close>

definition ex_world0 :: World where
  "ex_world0 = \<lparr>textDocuments = [], tabGroups_all = [], getOptions = (\<lambda>u. ex_options True error)\<rparr>"

text \<open>
  A manager that has published the three diagnostics of the sample document at level
  error; the options after the user has set the header-link level to ignore, the host
  with these options, and the workspace change event of that edit: it affects the
  \<^verbatim>\<open>headerLinks\<close> setting and the sections above it, and no other setting.
\<close>

definition ex_publishedAll :: ManagerState where
  "ex_publishedAll =
     ex_idle\<lparr>collection :=
       [ex_docUri \<mapsto>
          [Diagnostic ((0, 46), (0, 58)) (invalidPathLink ex_missingUri) Error,
           Diagnostic ((0, 24), (0, 37)) (invalidReferenceLink ''undefined-ref'') Error,
           Diagnostic ((0, 7), (0, 15)) (invalidHeaderLink ''missing'') Error]]\<rparr>"

definition ex_optionsHeadersOff :: DiagnosticOptions where
  "ex_optionsHeadersOff = (ex_options True error)\<lparr>validateOwnHeaders := ignore\<rparr>"

definition ex_worldHeadersOff :: World where
  "ex_worldHeadersOff =
     \<lparr>textDocuments = [ex_doc],
      tabGroups_all = [\<lparr>tabs = [\<lparr>input = TabInputText ex_docUri\<rparr>]\<rparr>],
      getOptions = (\<lambda>u. ex_optionsHeadersOff)\<rparr>"

definition ex_headerLinksChanged :: "string \<Rightarrow> bool" where
  "ex_headerLinksChanged section =
     (section \<in> set [''markdown'', ''markdown.experimental'', ''markdown.experimental.validate'',
        ''markdown.experimental.validate.headerLinks''])"

lemmas ex_defs = ex_docUri_def ex_missingUri_def ex_url_def ex_doc_def ex_ownLink_def ex_refLink_def
  ex_fileLink_def ex_refDefinition_def ex_links_def ex_env_def ex_options_def ex_target_def
  ex_targetLink_def ex_twoLinks_def ex_manyLinks_def ex_world_def ex_otherUri_def ex_otherDoc_def
  ex_otherLink_def ex_envOther_def ex_gitUri_def ex_gitDoc_def ex_worldGit_def ex_idle_def

section \<open>Reference pass and own-header pass as filters\<close>

lemma LinkDefinitionSet_None:
  "LinkDefinitionSet links m r = None \<longleftrightarrow> m r = None \<and> \<not> list_ex (definesReference r) links"
proof (induction links arbitrary: m)
  case Nil
  then show ?case by simp
next
  case (Cons link links)
  show ?case
  proof (cases link)
    case (MdInlineLink s h)
    then show ?thesis using Cons.IH [of m] by (simp add: definesReference_def)
  next
    case (MdLinkDefinition s n h)
    let ?m = "m(n \<mapsto> MdLinkDefinition s n h)"
    have step: "LinkDefinitionSet (link # links) m r = LinkDefinitionSet links ?m r"
      using MdLinkDefinition by simp
    have ih: "LinkDefinitionSet links ?m r = None \<longleftrightarrow>
        ?m r = None \<and> \<not> list_ex (definesReference r) links"
      by (rule Cons.IH)
    have upd: "?m r = None \<longleftrightarrow> n \<noteq> r \<and> m r = None"
      by simp
    have ex: "list_ex (definesReference r) (link # links) \<longleftrightarrow>
        n = r \<or> list_ex (definesReference r) links"
      using MdLinkDefinition by (simp add: definesReference_def)
    show ?thesis
      unfolding step ih upd ex by blast
  qed
qed

lemma referenceLoop_eq:
  "referenceLoop ds severity links acc =
     acc @ map (\<lambda>link. Diagnostic (hrefRange (source link)) (invalidReferenceLink (referenceName link)) severity)
       (filter (\<lambda>link. case href link of ReferenceHref r \<Rightarrow> ds r = None | InternalHref p f \<Rightarrow> False | ExternalHref u \<Rightarrow> False) links)"
  by (induction links arbitrary: acc)
     (auto simp: definitionSet_lookup_def referenceName_def split: LinkHref.splits)

lemma ownHeaderLoop_eq:
  "ownHeaderLoop env doc severity links acc =
     acc @ map (\<lambda>link. Diagnostic (hrefRange (source link)) (invalidHeaderLink (linkFragment link)) severity)
       (filter (brokenOwnHeaderLink env doc) links)"
  by (induction links arbitrary: acc)
     (auto simp: brokenOwnHeaderLink_def linkFragment_def split: LinkHref.splits)

section \<open>The limiter and the runs of the queued tasks\<close>

lemma consume_eq:
  "consume b out run = (drop (b - length run) out, run @ take (b - length run) out)"
proof (induction out arbitrary: run)
  case Nil
  then show ?case by simp
next
  case (Cons t out)
  show ?case
  proof (cases "length run < b")
    case True
    then have "b - length run = Suc (b - Suc (length run))" by simp
    then show ?thesis using True Cons.IH [of "run @ [t]"] by simp
  next
    case False
    then show ?thesis by simp
  qed
qed

lemma fold_Limiter_queue:
  "fold (Limiter_queue b) es emptyRun =
     \<lparr>outstanding = drop b es, running = take b es, pushed = [], calls = []\<rparr>"
proof (induction es rule: rev_induct)
  case Nil
  then show ?case by (simp add: emptyRun_def)
next
  case (snoc e es)
  show ?case
  proof (cases "length es < b")
    case True
    then show ?thesis using snoc by (simp add: Limiter_queue_def consume_eq)
  next
    case False
    then show ?thesis using snoc by (simp add: Limiter_queue_def consume_eq)
  qed
qed

lemma settle_fields:
  assumes "i < length (running s)"
  shows "pushed (settle b task i s) = pushed s @ snd (task (running s ! i))"
    and "calls (settle b task i s) = calls s @ fst (task (running s ! i))"
    and "running (settle b task i s) =
      (take i (running s) @ drop (Suc i) (running s)) @
        take (b - (length (running s) - 1)) (outstanding s)"
    and "outstanding (settle b task i s) = drop (b - (length (running s) - 1)) (outstanding s)"
  using assms by (auto simp: settle_def consume_eq split: prod.splits)

lemma settle_bound:
  assumes "i < length (running s)" and "length (running s) \<le> b"
  shows "length (running (settle b task i s)) \<le> b"
  using assms by (simp add: settle_fields)

lemma settle_full:
  assumes "i < length (running s)" and "length (running s) \<le> b"
    and "outstanding (settle b task i s) \<noteq> []"
  shows "length (running (settle b task i s)) = b"
  using assms by (simp add: settle_fields) 

lemma settle_mset:
  assumes "i < length (running s)"
  shows "add_mset (running s ! i) (mset (running (settle b task i s)) + mset (outstanding (settle b task i s))) =
     mset (running s) + mset (outstanding s)"
proof -
  have "mset (running s) = add_mset (running s ! i) (mset (take i (running s) @ drop (Suc i) (running s)))"
    using assms by (metis append_take_drop_id Cons_nth_drop_Suc mset.simps(2) mset_append union_mset_add_mset_right)
  moreover have "mset (take k (outstanding s)) + mset (drop k (outstanding s)) = mset (outstanding s)" for k
    by (metis append_take_drop_id mset_append)
  ultimately show ?thesis
    using assms by (simp add: settle_fields add.assoc)
qed

lemma reachable_bound:
  assumes "reachable b task s0 s" and "length (running s0) \<le> b"
    and "outstanding s0 \<noteq> [] \<longrightarrow> length (running s0) = b"
  shows "length (running s) \<le> b \<and> (outstanding s \<noteq> [] \<longrightarrow> length (running s) = b)"
  using assms
proof (induction rule: reachable.induct)
  case start
  then show ?case by simp
next
  case (settled s i)
  then show ?case using settle_bound settle_full by blast
qed

lemma reachable_order:
  assumes "reachable b task s0 s" and "pushed s0 = []" and "calls s0 = []"
  shows "\<exists>order. pushed s = concat (map (\<lambda>e. snd (task e)) order) \<and>
      calls s = concat (map (\<lambda>e. fst (task e)) order) \<and>
      mset order + mset (running s) + mset (outstanding s) = mset (running s0) + mset (outstanding s0)"
  using assms
proof (induction rule: reachable.induct)
  case start
  then show ?case by (intro exI [of _ "[]"]) simp
next
  case (settled s i)
  then obtain order where o: "pushed s = concat (map (\<lambda>e. snd (task e)) order)"
      "calls s = concat (map (\<lambda>e. fst (task e)) order)"
      "mset order + mset (running s) + mset (outstanding s) = mset (running s0) + mset (outstanding s0)"
    by blast
  let ?e = "running s ! i" and ?s' = "settle b task i s"
  have "add_mset ?e (mset (running ?s') + mset (outstanding ?s')) = mset (running s) + mset (outstanding s)"
    using settled.hyps(2) by (rule settle_mset)
  then have "mset (order @ [?e]) + mset (running ?s') + mset (outstanding ?s') =
      mset order + mset (running s) + mset (outstanding s)"
    by (simp add: add.assoc)
  then have m: "mset (order @ [?e]) + mset (running ?s') + mset (outstanding ?s') =
      mset (running s0) + mset (outstanding s0)"
    using o(3) by simp
  have p: "pushed ?s' = concat (map (\<lambda>e. snd (task e)) (order @ [?e]))"
    using o(1) settled.hyps(2) by (simp add: settle_fields)
  have c: "calls ?s' = concat (map (\<lambda>e. fst (task e)) (order @ [?e]))"
    using o(2) settled.hyps(2) by (simp add: settle_fields)
  from p c m show ?case by blast
qed

lemma runAll_running: "running (runAll b task sched s) = []"
  by (induction b task sched s rule: runAll.induct) (subst runAll.simps, simp)

lemma runAll_reachable:
  "reachable b task s0 s \<Longrightarrow> reachable b task s0 (runAll b task sched s)"
proof (induction b task sched s rule: runAll.induct)
  case (1 bound task sched s)
  show ?case
  proof (cases "running s = []")
    case True
    then show ?thesis using "1.prems" by (subst runAll.simps) simp
  next
    case False
    then have "nextChoice sched (length (running s)) < length (running s)"
      by (auto simp: nextChoice_def split: list.splits)
    then have "reachable bound task s0 (settle bound task (nextChoice sched (length (running s))) s)"
      using "1.prems" by (rule reachable.settled [rotated])
    then show ?thesis using False "1.IH" by (subst runAll.simps) simp
  qed
qed

section \<open>The file link map groups links by target\<close>

lemma linksTo_simps:
  "linksTo k [] = []"
  "linksTo k (link # links) = linkDataFor k link @ linksTo k links"
  by (simp_all add: linksTo_def)

lemma targetsWith_simps:
  "targetsWith k [] = []"
  "targetsWith k (link # links) = targetFor k link @ targetsWith k links"
  by (simp_all add: targetsWith_def)

lemma map_fst_pushLinkData: "map fst (pushLinkData k d m) = map fst m"
  by (induction m) auto

lemma map_of_pushLinkData:
  "map_of (pushLinkData k d m) k' =
     (if k' = k then map_option (\<lambda>e. e\<lparr>fl_links := fl_links e @ [d]\<rparr>) (map_of m k) else map_of m k')"
  by (induction m) auto

lemma FileLinkMap_loop_distinct:
  "distinct (map fst m) \<Longrightarrow> distinct (map fst (FileLinkMap_loop links m))"
proof (induction links arbitrary: m)
  case Nil
  then show ?case by simp
next
  case (Cons link links)
  show ?case
  proof (cases "href link")
    case (InternalHref p f)
    show ?thesis
    proof (cases "map_of m (toString p)")
      case None
      then have "toString p \<notin> set (map fst m)"
        by (simp add: map_of_eq_None_iff)
      then have "distinct (map fst (m @ [(toString p, \<lparr>fl_path = p, fl_links = [(source link, f)]\<rparr>)]))"
        using Cons.prems by simp
      then show ?thesis
        using InternalHref None Cons.IH by (simp add: Let_def)
    next
      case (Some e)
      have "distinct (map fst (pushLinkData (toString p) (source link, f) m))"
        using Cons.prems by (simp add: map_fst_pushLinkData)
      then show ?thesis
        using InternalHref Some Cons.IH by (simp add: Let_def)
    qed
  qed (use Cons in simp_all)
qed

lemma FileLinkMap_loop_map_of:
  "map_of (FileLinkMap_loop links m) k =
     (case map_of m k of
        Some e \<Rightarrow> Some (e\<lparr>fl_links := fl_links e @ linksTo k links\<rparr>)
      | None \<Rightarrow>
          (case targetsWith k links of
             [] \<Rightarrow> None
           | p # ps \<Rightarrow> Some \<lparr>fl_path = p, fl_links = linksTo k links\<rparr>))"
proof (induction links arbitrary: m)
  case Nil
  then show ?case by (simp add: linksTo_simps targetsWith_simps split: option.splits)
next
  case (Cons link links)
  show ?case
  proof (cases "href link")
    case (InternalHref p f)
    show ?thesis
    proof (cases "map_of m (toString p)")
      case None
      let ?m = "m @ [(toString p, \<lparr>fl_path = p, fl_links = [(source link, f)]\<rparr>)]"
      have step: "FileLinkMap_loop (link # links) m = FileLinkMap_loop links ?m"
        using InternalHref None by (simp add: Let_def)
      have look: "map_of ?m k =
          (case map_of m k of Some e \<Rightarrow> Some e
           | None \<Rightarrow> if k = toString p then Some \<lparr>fl_path = p, fl_links = [(source link, f)]\<rparr> else None)"
        by (simp add: map_add_def split: option.splits)
      show ?thesis
        unfolding step Cons.IH [of ?m] look
        using InternalHref None
        by (auto simp: linksTo_simps targetsWith_simps linkDataFor_def targetFor_def
            split: option.splits list.splits)
    next
      case (Some e)
      let ?m = "pushLinkData (toString p) (source link, f) m"
      have step: "FileLinkMap_loop (link # links) m = FileLinkMap_loop links ?m"
        using InternalHref Some by (simp add: Let_def)
      show ?thesis
        unfolding step Cons.IH [of ?m] map_of_pushLinkData
        using InternalHref Some
        by (auto simp: linksTo_simps targetsWith_simps linkDataFor_def targetFor_def
            split: option.splits list.splits)
    qed
  next
    case (ReferenceHref r)
    then show ?thesis
      using Cons.IH [of m]
      by (auto simp: linksTo_simps targetsWith_simps linkDataFor_def targetFor_def
          split: option.splits list.splits)
  next
    case (ExternalHref u)
    then show ?thesis
      using Cons.IH [of m]
      by (auto simp: linksTo_simps targetsWith_simps linkDataFor_def targetFor_def
          split: option.splits list.splits)
  qed
qed

lemma targetsWith_toString: "p \<in> set (targetsWith k links) \<Longrightarrow> toString p = k"
  by (auto simp: targetsWith_def targetFor_def split: LinkHref.splits if_splits)

lemma targetsWith_linksTo: "targetsWith k links = [] \<longleftrightarrow> linksTo k links = []"
  by (induction links)
    (auto simp: targetsWith_simps linksTo_simps targetFor_def linkDataFor_def split: LinkHref.splits)

lemma FileLinkMap_distinct: "distinct (map fst (FileLinkMap links))"
  by (simp add: FileLinkMap_def FileLinkMap_loop_distinct)

lemma FileLinkMap_entry:
  assumes "(k, e) \<in> set (FileLinkMap links)"
  shows "toString (fl_path e) = k \<and> fl_links e = linksTo k links \<and> fl_links e \<noteq> []"
proof -
  have "map_of (FileLinkMap links) k = Some e"
    using assms FileLinkMap_distinct by simp
  then have c: "(case targetsWith k links of [] \<Rightarrow> None
      | p # ps \<Rightarrow> Some \<lparr>fl_path = p, fl_links = linksTo k links\<rparr>) = Some e"
    by (simp add: FileLinkMap_def FileLinkMap_loop_map_of)
  then obtain p ps where t: "targetsWith k links = p # ps"
    and e: "e = \<lparr>fl_path = p, fl_links = linksTo k links\<rparr>"
    by (auto split: list.splits)
  have "toString p = k"
    using t targetsWith_toString [of p k links] by simp
  moreover have "linksTo k links \<noteq> []"
    using t targetsWith_linksTo [of k links] by simp
  ultimately show ?thesis using e by simp
qed

lemma FileLinkMap_keys:
  "k \<in> set (map fst (FileLinkMap links)) \<longleftrightarrow> linksTo k links \<noteq> []"
proof -
  have "k \<in> set (map fst (FileLinkMap links)) \<longleftrightarrow> map_of (FileLinkMap links) k \<noteq> None"
    by (simp add: map_of_eq_None_iff)
  also have "\<dots> \<longleftrightarrow> targetsWith k links \<noteq> []"
    by (simp add: FileLinkMap_def FileLinkMap_loop_map_of split: list.splits)
  finally show ?thesis by (simp add: targetsWith_linksTo)
qed

section \<open>The file-path pass: tasks and runs\<close>

lemma otherFileHeaderLoop_eq:
  "otherFileHeaderLoop env hrefDoc severity ls acc =
     acc @ map (\<lambda>l. Diagnostic (hrefRange (fst l)) (invalidLinkToHeaderInOtherFile (snd l)) severity)
       (filter (\<lambda>l. \<not> tocLookup env hrefDoc (snd l)) ls)"
  by (induction ls arbitrary: acc) auto

lemma fileTask_diagnostics:
  "snd (fileTask env doc severity token e) = taskDiagnostics env doc severity token e"
  by (auto simp: fileTask_def taskDiagnostics_def targetDiagnostics_def Let_def otherFileHeaderLoop_eq
      filter_empty_conv split: option.splits)

lemma queuedRun_eq:
  "queuedRun links =
     \<lparr>outstanding = drop 10 (FileLinkMap_entries (FileLinkMap links)),
      running = take 10 (FileLinkMap_entries (FileLinkMap links)), pushed = [], calls = []\<rparr>"
  by (simp add: queuedRun_def fold_Limiter_queue)

lemma validateFileLinks_run_final:
  assumes "toSeverity (validateFilePaths options) = Some severity"
  shows "reachable 10 (fileTask env doc severity token) (queuedRun links)
      (validateFileLinks_run env sched doc options links token)"
    and "running (validateFileLinks_run env sched doc options links token) = []"
    and "outstanding (validateFileLinks_run env sched doc options links token) = []"
proof -
  let ?entries = "FileLinkMap_entries (FileLinkMap links)"
  let ?task = "fileTask env doc severity token"
  let ?s0 = "queuedRun links"
  let ?final = "validateFileLinks_run env sched doc options links token"
  have s0: "?s0 = \<lparr>outstanding = drop 10 ?entries, running = take 10 ?entries, pushed = [], calls = []\<rparr>"
    by (simp add: queuedRun_eq)
  have final: "?final = runAll 10 ?task sched ?s0"
  proof (cases "?entries = []")
    case True
    then have "?s0 = emptyRun" by (simp add: s0 emptyRun_def)
    moreover have "runAll 10 ?task sched emptyRun = emptyRun"
      by (subst runAll.simps) (simp add: emptyRun_def)
    moreover have "?final = emptyRun"
      using True assms(1)
      by (simp add: validateFileLinks_run_def FileLinkMap_size_def FileLinkMap_entries_def)
    ultimately show ?thesis by simp
  next
    case False
    then show ?thesis
      using assms(1)
      by (simp add: validateFileLinks_run_def FileLinkMap_size_def
          FileLinkMap_entries_def queuedRun_def)
  qed
  show r: "reachable 10 ?task ?s0 ?final"
    unfolding final by (rule runAll_reachable) (rule reachable.start)
  show e: "running ?final = []"
    unfolding final by (rule runAll_running)
  have "length (running ?final) \<le> 10 \<and> (outstanding ?final \<noteq> [] \<longrightarrow> length (running ?final) = 10)"
    using r by (rule reachable_bound) (simp_all add: s0)
  then show "outstanding ?final = []"
    using e by auto
qed

lemma validateFileLinks_run_order:
  assumes "toSeverity (validateFilePaths options) = Some severity"
  shows "\<exists>order. mset order = mset (FileLinkMap_entries (FileLinkMap links)) \<and>
     pushed (validateFileLinks_run env sched doc options links token) =
       concat (map (taskDiagnostics env doc severity token) order) \<and>
     calls (validateFileLinks_run env sched doc options links token) =
       concat (map (\<lambda>e. fst (fileTask env doc severity token e)) order)"
proof -
  let ?entries = "FileLinkMap_entries (FileLinkMap links)"
  let ?task = "fileTask env doc severity token"
  let ?s0 = "queuedRun links"
  let ?final = "validateFileLinks_run env sched doc options links token"
  have s0: "?s0 = \<lparr>outstanding = drop 10 ?entries, running = take 10 ?entries, pushed = [], calls = []\<rparr>"
    by (simp add: queuedRun_eq)
  have "reachable 10 ?task ?s0 ?final" and fin: "running ?final = []" "outstanding ?final = []"
    using validateFileLinks_run_final [OF assms] by simp_all
  then obtain order where o: "pushed ?final = concat (map (\<lambda>e. snd (?task e)) order)"
      "calls ?final = concat (map (\<lambda>e. fst (?task e)) order)"
      "mset order + mset (running ?final) + mset (outstanding ?final) =
        mset (running ?s0) + mset (outstanding ?s0)"
    using reachable_order [of 10 ?task ?s0 ?final] s0 by auto
  have "mset (take 10 ?entries) + mset (drop 10 ?entries) = mset ?entries"
    by (metis append_take_drop_id mset_append)
  then have "mset order = mset ?entries"
    using o(3) fin s0 by simp
  then show ?thesis
    using o(1,2) by (auto simp: fileTask_diagnostics)
qed

lemma count_list_concat_only:
  assumes "distinct es" and "e0 \<in> set es"
    and "\<And>e. e \<in> set es \<Longrightarrow> e \<noteq> e0 \<Longrightarrow> count_list (g e) x = 0"
  shows "count_list (concat (map g es)) x = count_list (g e0) x"
  using assms
proof (induction es)
  case Nil
  then show ?case by simp
next
  case (Cons e es)
  show ?case
  proof (cases "e = e0")
    case True
    then have "e0 \<notin> set es" using Cons.prems(1) by simp
    then have "\<And>e'. e' \<in> set es \<Longrightarrow> count_list (g e') x = 0"
      using Cons.prems(3) by auto
    then have "count_list (concat (map g es)) x = 0"
      by (induction es) auto
    then show ?thesis using True by simp
  next
    case False
    then have "count_list (concat (map g es)) x = count_list (g e0) x"
      using Cons by auto
    then show ?thesis using False Cons.prems(3) [of e] by simp
  qed
qed

lemma FileLinkMap_entries_distinct:
  "distinct (FileLinkMap_entries (FileLinkMap links))"
proof -
  have "inj_on snd (set (FileLinkMap links))"
  proof (rule inj_onI)
    fix x y
    assume x: "x \<in> set (FileLinkMap links)" and y: "y \<in> set (FileLinkMap links)"
      and eq: "snd x = snd y"
    have "toString (fl_path (snd x)) = fst x"
      using FileLinkMap_entry [of "fst x" "snd x" links] x by simp
    moreover have "toString (fl_path (snd y)) = fst y"
      using FileLinkMap_entry [of "fst y" "snd y" links] y by simp
    ultimately have "fst x = fst y" using eq by simp
    then show "x = y" using eq by (simp add: prod_eq_iff)
  qed
  moreover have "distinct (FileLinkMap links)"
    using FileLinkMap_distinct [of links] by (simp add: distinct_map)
  ultimately show ?thesis
    by (simp add: FileLinkMap_entries_def distinct_map)
qed

lemma FileLinkMap_entries_path_inj:
  assumes "e \<in> set (FileLinkMap_entries (FileLinkMap links))"
    and "e' \<in> set (FileLinkMap_entries (FileLinkMap links))"
    and "fl_path e = fl_path e'"
  shows "e = e'"
proof -
  obtain k k' where k: "(k, e) \<in> set (FileLinkMap links)" and k': "(k', e') \<in> set (FileLinkMap links)"
    using assms(1,2) by (auto simp: FileLinkMap_entries_def)
  have "k = k'"
    using FileLinkMap_entry [OF k] FileLinkMap_entry [OF k'] assms(3) by simp
  then show ?thesis
    using k k' FileLinkMap_distinct [of links] by (meson eq_key_imp_eq_value)
qed

lemma fileTask_calls_other:
  assumes "fl_path e' \<noteq> fl_path e"
  shows "count_list (fst (fileTask env doc severity token e')) (FindMdDocument (fl_path e)) = 0"
    and "count_list (fst (fileTask env doc severity token e')) (PathExists (fl_path e)) = 0"
  using assms by (auto simp: fileTask_def Let_def split: option.splits)

lemma fileTask_calls_own:
  assumes "\<not> token (AtFileTask (toString (fl_path e)))"
  shows "count_list (fst (fileTask env doc severity token e)) (FindMdDocument (fl_path e)) = 1"
    and "count_list (fst (fileTask env doc severity token e)) (PathExists (fl_path e)) =
      (if tryFindMdDocumentForLink env (fl_path e) = None then 1 else 0)"
  using assms by (auto simp: fileTask_def Let_def split: option.splits)

lemma validateFileLinks_run_calls:
  assumes "toSeverity (validateFilePaths options) = Some severity"
    and "e \<in> set (FileLinkMap_entries (FileLinkMap links))"
    and "c = FindMdDocument (fl_path e) \<or> c = PathExists (fl_path e)"
  shows "count_list (calls (validateFileLinks_run env sched doc options links token)) c =
      count_list (fst (fileTask env doc severity token e)) c"
proof -
  obtain order where o: "mset order = mset (FileLinkMap_entries (FileLinkMap links))"
    and c: "calls (validateFileLinks_run env sched doc options links token) =
       concat (map (\<lambda>e. fst (fileTask env doc severity token e)) order)"
    using validateFileLinks_run_order [OF assms(1)] by blast
  have d: "distinct order"
    using o FileLinkMap_entries_distinct [of links] by (metis mset_eq_imp_distinct_iff)
  have s: "set order = set (FileLinkMap_entries (FileLinkMap links))"
    using o by (rule mset_eq_setD)
  have "count_list (fst (fileTask env doc severity token e')) c = 0"
    if "e' \<in> set order" and "e' \<noteq> e" for e'
  proof -
    have "fl_path e' \<noteq> fl_path e"
      using that s assms(2) FileLinkMap_entries_path_inj [of e' links e] by auto
    then show ?thesis
      using assms(3) fileTask_calls_other [of e' e env doc severity token] by auto
  qed
  then show ?thesis
    unfolding c using d s assms(2) by (intro count_list_concat_only) auto
qed

section \<open>The file-path pass up to the order in which tasks settle\<close>



lemma validateFileLinks_order:
  "\<exists>order. mset order = mset (FileLinkMap_entries (FileLinkMap links)) \<and>
     validateFileLinks env sched doc options links token =
       (case toSeverity (validateFilePaths options) of
          None \<Rightarrow> []
        | Some severity \<Rightarrow> concat (map (taskDiagnostics env doc severity token) order))"
proof (cases "toSeverity (validateFilePaths options)")
  case None
  then show ?thesis
    by (intro exI [of _ "FileLinkMap_entries (FileLinkMap links)"])
      (simp add: validateFileLinks_def validateFileLinks_run_def emptyRun_def)
next
  case (Some severity)
  then show ?thesis
    using validateFileLinks_run_order [OF Some, of links env sched doc token]
    by (auto simp: validateFileLinks_def)
qed


lemmas file_eval = validateFileLinks_def validateFileLinks_run_def FileLinkMap_def FileLinkMap_size_def
    FileLinkMap_entries_def Limiter_queue_def emptyRun_def runAll.simps settle_def nextChoice_def
    fileTask_def noopToken_def Let_def

section \<open>The manager's handlers in closed form\<close>

lemma DiagnosticManager_getDiagnostics_eq:
  "DiagnosticManager_getDiagnostics computer w doc token =
     (if \<not> enabled (getOptions w (doc_uri doc)) then []
      else computer doc (getOptions w (doc_uri doc)) token)"
  by (simp add: DiagnosticManager_getDiagnostics_def DiagnosticManager_getDiagnostics_run_def Let_def)

lemma recomputeLoop_eq:
  "recomputeLoop computer w pending s =
     s\<lparr>inFlight := inFlight s @ concat (map (startedFor computer w) pending)\<rparr>"
  by (induction pending arbitrary: s)
    (auto simp: startedFor_def started_def update_def split: option.splits)

lemma recomputePendingDiagnostics_eq:
  "recomputePendingDiagnostics computer w s =
     s\<lparr>pendingDiagnostics := [],
       inFlight := inFlight s @ concat (map (startedFor computer w) (pendingDiagnostics s))\<rparr>"
  by (simp add: recomputePendingDiagnostics_def recomputeLoop_eq)

lemma fold_update:
  "fold (update computer w) docs s = s\<lparr>inFlight := inFlight s @ map (started computer w) docs\<rparr>"
  by (induction docs arbitrary: s) (auto simp: update_def started_def)

lemma tabsLoop_has:
  "tabsLoop ts m k \<noteq> None \<longleftrightarrow> m k \<noteq> None \<or> list_ex (tabShows k) ts"
proof (induction ts arbitrary: m)
  case Nil
  then show ?case by simp
next
  case (Cons tab ts)
  show ?case
  proof (cases "input tab")
    case (TabInputText u)
    let ?m = "m(toString u \<mapsto> u)"
    have step: "tabsLoop (tab # ts) m k = tabsLoop ts ?m k"
      using TabInputText by simp
    have ih: "tabsLoop ts ?m k \<noteq> None \<longleftrightarrow> ?m k \<noteq> None \<or> list_ex (tabShows k) ts"
      by (rule Cons.IH)
    have upd: "?m k \<noteq> None \<longleftrightarrow> toString u = k \<or> m k \<noteq> None"
      by simp
    have ex: "list_ex (tabShows k) (tab # ts) \<longleftrightarrow> toString u = k \<or> list_ex (tabShows k) ts"
      using TabInputText by (simp add: tabShows_def)
    show ?thesis
      unfolding step ih upd ex by blast
  next
    case TabInputOther
    then show ?thesis using Cons.IH [of m] by (simp add: tabShows_def)
  qed
qed

lemma groupsLoop_has:
  "groupsLoop gs m k \<noteq> None \<longleftrightarrow>
     m k \<noteq> None \<or> list_ex (\<lambda>tabGroup. list_ex (tabShows k) (tabs tabGroup)) gs"
proof (induction gs arbitrary: m)
  case Nil
  then show ?case by simp
next
  case (Cons g gs)
  have step: "groupsLoop (g # gs) m k = groupsLoop gs (tabsLoop (tabs g) m) k"
    by simp
  have ex: "list_ex (\<lambda>tabGroup. list_ex (tabShows k) (tabs tabGroup)) (g # gs) \<longleftrightarrow>
      list_ex (tabShows k) (tabs g) \<or> list_ex (\<lambda>tabGroup. list_ex (tabShows k) (tabs tabGroup)) gs"
    by simp
  show ?case
    unfolding step Cons.IH [of "tabsLoop (tabs g) m"] tabsLoop_has ex by blast
qed

lemma rebuild_eq:
  "rebuild computer w s =
     s\<lparr>collection := Map.empty,
       inFlight := inFlight s @ map (started computer w) (visibleMarkdownDocuments w)\<rparr>"
proof -
  have "(\<lambda>doc. getAllTabResources w (toString (doc_uri doc)) \<noteq> None \<and> isMarkdownFile doc) =
      (\<lambda>doc. inTextTab w doc \<and> isMarkdownFile doc)"
    by (simp add: fun_eq_iff getAllTabResources_def groupsLoop_has inTextTab_def del: not_None_eq)
  then show ?thesis
    by (simp add: rebuild_def fold_update visibleMarkdownDocuments_def)
qed

lemma resolveFirst_eq:
  "n = length (inFlight s) \<Longrightarrow>
   resolveFirst n s = s\<lparr>collection := collection s ++ map_of (rev (inFlight s)), inFlight := []\<rparr>"
proof (induction n arbitrary: s)
  case 0
  then show ?case by simp
next
  case (Suc n)
  then obtain resource diagnostics rest where f: "inFlight s = (resource, diagnostics) # rest"
    by (cases "inFlight s") auto
  let ?s = "updateResolved 0 s"
  have s': "?s = s\<lparr>collection := (collection s)(resource \<mapsto> diagnostics), inFlight := rest\<rparr>"
    using f by (simp add: updateResolved_def)
  have n: "n = length (inFlight ?s)"
    using Suc.prems f s' by simp
  have eq: "(collection s)(resource \<mapsto> diagnostics) ++ map_of (rev rest) =
      collection s ++ map_of (rev ((resource, diagnostics) # rest))"
    by (rule ext) (simp add: map_add_def split: option.splits)
  have "resolveFirst (Suc n) s = resolveFirst n ?s"
    by simp
  also have "\<dots> = ?s\<lparr>collection := collection ?s ++ map_of (rev (inFlight ?s)), inFlight := []\<rparr>"
    by (rule Suc.IH [OF n])
  also have "\<dots> = s\<lparr>collection := (collection s)(resource \<mapsto> diagnostics) ++ map_of (rev rest),
      inFlight := []\<rparr>"
    unfolding s' by simp
  also have "\<dots> = s\<lparr>collection := collection s ++ map_of (rev (inFlight s)), inFlight := []\<rparr>"
    unfolding eq f by (rule refl)
  finally show ?case .
qed

lemma resolveAll_eq:
  "resolveAll s = s\<lparr>collection := collection s ++ map_of (rev (inFlight s)), inFlight := []\<rparr>"
  by (simp add: resolveAll_def resolveFirst_eq)

lemma find_first:
  assumes "P x" and "\<forall>y\<in>set before. \<not> P y"
  shows "find P (before @ x # after) = Some x"
  using assms by (induction before) auto

lemma published_all_empty:
  assumes "\<forall>entry\<in>set entries. snd entry = []"
  shows "(case map_of (rev entries) resource of None \<Rightarrow> [] | Some diagnostics \<Rightarrow> diagnostics) = []"
proof (cases "map_of (rev entries) resource")
  case None
  then show ?thesis by simp
next
  case (Some diagnostics)
  then have "(resource, diagnostics) \<in> set entries"
    using map_of_SomeD [of "rev entries" resource diagnostics] by simp
  then show ?thesis using assms Some by auto
qed

section \<open>Claim C1: validation disabled\<close>

text \<open>
  Claim C1, as stated: with \<^verbatim>\<open>options.enabled = false\<close>,
  \<^verbatim>\<open>DiagnosticComputer.getDiagnostics(doc, options, token)\<close> returns the empty list
  without running any validation pass. This fails: the computer never reads
  \<^verbatim>\<open>enabled\<close>. On the sample document with \<^verbatim>\<open>enabled = false\<close> and every
  level at error it runs the three passes and returns three diagnostics.
\<close>

theorem disabled_computer_counterexample:
  "\<not> enabled (ex_options False error) \<and>
   DiagnosticComputer_getDiagnostics (ex_env ex_links False False) [] ex_doc
      (ex_options False error) noopToken =
     [Diagnostic ((0, 46), (0, 58)) (invalidPathLink ex_missingUri) Error,
      Diagnostic ((0, 24), (0, 37)) (invalidReferenceLink ''undefined-ref'') Error,
      Diagnostic ((0, 7), (0, 15)) (invalidHeaderLink ''missing'') Error]"
  by (simp add: DiagnosticComputer_getDiagnostics_def validateReferenceLinks_def
      validateOwnHeaderLinks_def definitionSet_lookup_def file_eval ex_defs)

text \<open>
  Claim C1, amended. The gate is in the manager: for every document and every
  cancellation token, \<^verbatim>\<open>DiagnosticManager.getDiagnostics(doc, token)\<close> returns the
  empty list when the options configured for \<^verbatim>\<open>doc.uri\<close> have
  \<^verbatim>\<open>enabled = false\<close>, and it does so without calling the computer: its log of
  computer calls is empty, so no validation pass runs. When \<^verbatim>\<open>enabled\<close> is true it
  calls the computer exactly once, with the document and the configured options, and
  returns what the computer returns. \<^verbatim>\<open>DiagnosticComputer.getDiagnostics\<close> itself
  does not depend on \<^verbatim>\<open>enabled\<close>: its result is decided by the three levels alone.
\<close>

theorem disabled_manager_returns_empty:
  "(\<not> enabled (getOptions w (doc_uri doc)) \<longrightarrow>
      DiagnosticManager_getDiagnostics_run computer w doc token = ([], []) \<and>
      DiagnosticManager_getDiagnostics computer w doc token = []) \<and>
   (enabled (getOptions w (doc_uri doc)) \<longrightarrow>
      DiagnosticManager_getDiagnostics_run computer w doc token =
        ([(doc, getOptions w (doc_uri doc))], computer doc (getOptions w (doc_uri doc)) token)) \<and>
   DiagnosticComputer_getDiagnostics env sched doc (options\<lparr>enabled := b\<rparr>) token =
     DiagnosticComputer_getDiagnostics env sched doc options token"
  by (simp add: DiagnosticManager_getDiagnostics_def DiagnosticManager_getDiagnostics_run_def
      DiagnosticComputer_getDiagnostics_def validateFileLinks_def validateFileLinks_run_def
      validateReferenceLinks_def validateOwnHeaderLinks_def Let_def)

text \<open>
  The sample document behind a configuration with \<^verbatim>\<open>enabled = false\<close>: the manager
  returns nothing and makes no call on the computer; behind a configuration with
  \<^verbatim>\<open>enabled = true\<close> it makes one call. The computer returns the same for both
  values of the flag.
\<close>

theorem disabled_manager_returns_empty_witness:
  "DiagnosticManager_getDiagnostics_run ex_computer (ex_world False error) ex_doc noopToken = ([], []) \<and>
   DiagnosticManager_getDiagnostics ex_computer (ex_world False error) ex_doc noopToken = [] \<and>
   fst (DiagnosticManager_getDiagnostics_run ex_computer (ex_world True error) ex_doc noopToken) =
     [(ex_doc, ex_options True error)] \<and>
   DiagnosticComputer_getDiagnostics (ex_env ex_links False False) [] ex_doc
      (ex_options False error) noopToken =
     DiagnosticComputer_getDiagnostics (ex_env ex_links False False) [] ex_doc
      (ex_options True error) noopToken"
proof -
  have off: "\<not> enabled (getOptions (ex_world False error) (doc_uri ex_doc))"
    by (simp add: ex_world_def ex_options_def)
  have on: "enabled (getOptions (ex_world True error) (doc_uri ex_doc))"
    "getOptions (ex_world True error) (doc_uri ex_doc) = ex_options True error"
    by (simp_all add: ex_world_def ex_options_def)
  have flip: "(ex_options True error)\<lparr>enabled := False\<rparr> = ex_options False error"
    by (simp add: ex_options_def)
  note t_off = disabled_manager_returns_empty [where w = "ex_world False error" and doc = ex_doc
      and computer = ex_computer and token = noopToken and env = "ex_env ex_links False False"
      and sched = "[]" and options = "ex_options True error" and b = False]
  note t_on = disabled_manager_returns_empty [where w = "ex_world True error" and doc = ex_doc
      and computer = ex_computer and token = noopToken and env = "ex_env ex_links False False"
      and sched = "[]" and options = "ex_options True error" and b = False]
  have "DiagnosticManager_getDiagnostics_run ex_computer (ex_world False error) ex_doc noopToken = ([], [])"
    and "DiagnosticManager_getDiagnostics ex_computer (ex_world False error) ex_doc noopToken = []"
    using t_off off by blast+
  moreover have "fst (DiagnosticManager_getDiagnostics_run ex_computer (ex_world True error) ex_doc noopToken) =
      [(ex_doc, ex_options True error)]"
    using t_on on by simp
  moreover have "DiagnosticComputer_getDiagnostics (ex_env ex_links False False) [] ex_doc
      (ex_options False error) noopToken =
     DiagnosticComputer_getDiagnostics (ex_env ex_links False False) [] ex_doc
      (ex_options True error) noopToken"
    using t_off flip by simp
  ultimately show ?thesis by simp
qed

section \<open>Claim C2: a category set to ignore is skipped\<close>

text \<open>
  Claim C2. For every document, options and link set: with
  \<^verbatim>\<open>validateOwnHeaders = ignore\<close> the own-header pass returns no diagnostic, with
  \<^verbatim>\<open>validateReferences = ignore\<close> the reference pass returns none, and with
  \<^verbatim>\<open>validateFilePaths = ignore\<close> the file-path pass returns none and calls none of
  its collaborators (no document lookup, no existence check), whatever the links are.
\<close>

theorem ignore_skips_pass:
  "(validateOwnHeaders options = ignore \<longrightarrow>
      validateOwnHeaderLinks env doc options links token = []) \<and>
   (validateReferences options = ignore \<longrightarrow>
      validateReferenceLinks options links = []) \<and>
   (validateFilePaths options = ignore \<longrightarrow>
      validateFileLinks env sched doc options links token = [] \<and>
      calls (validateFileLinks_run env sched doc options links token) = [])"
  by (simp add: validateOwnHeaderLinks_def validateReferenceLinks_def validateFileLinks_def
      validateFileLinks_run_def emptyRun_def)

text \<open>
  The sample document violates all three categories (each pass reports something at level
  error); at level ignore every pass is empty and the file-path pass makes no call.
\<close>

theorem ignore_skips_pass_witness:
  "validateOwnHeaderLinks (ex_env ex_links False False) ex_doc (ex_options True ignore) ex_links noopToken = [] \<and>
   validateReferenceLinks (ex_options True ignore) ex_links = [] \<and>
   validateFileLinks (ex_env ex_links False False) [] ex_doc (ex_options True ignore) ex_links noopToken = [] \<and>
   calls (validateFileLinks_run (ex_env ex_links False False) [] ex_doc (ex_options True ignore)
      ex_links noopToken) = [] \<and>
   validateOwnHeaderLinks (ex_env ex_links False False) ex_doc (ex_options True error) ex_links noopToken \<noteq> [] \<and>
   validateReferenceLinks (ex_options True error) ex_links \<noteq> [] \<and>
   validateFileLinks (ex_env ex_links False False) [] ex_doc (ex_options True error) ex_links noopToken \<noteq> []"
proof -
  have i: "validateOwnHeaders (ex_options True ignore) = ignore"
    "validateReferences (ex_options True ignore) = ignore"
    "validateFilePaths (ex_options True ignore) = ignore"
    by (simp_all add: ex_options_def)
  have "validateOwnHeaderLinks (ex_env ex_links False False) ex_doc (ex_options True error) ex_links noopToken \<noteq> []"
    by (simp add: validateOwnHeaderLinks_def ex_defs noopToken_def)
  moreover have "validateReferenceLinks (ex_options True error) ex_links \<noteq> []"
    by (simp add: validateReferenceLinks_def ex_defs definitionSet_lookup_def)
  moreover have "validateFileLinks (ex_env ex_links False False) [] ex_doc (ex_options True error) ex_links noopToken \<noteq> []"
    by (simp add: file_eval ex_defs)
  ultimately show ?thesis
    using i ignore_skips_pass [of "ex_options True ignore" "ex_env ex_links False False" ex_doc
        ex_links noopToken "[]"]
    by simp
qed

section \<open>Claim C3: closing a document while its recomputation is in flight\<close>

text \<open>
  Right after the handler of the close event has run, the collection holds no entry for
  the closed document and the pending set does not contain its uri, whatever the state
  was before.
\<close>

lemma close_clears:
  "collection (onDidCloseTextDocument doc s) (doc_uri doc) = None \<and>
   doc_uri doc \<notin> set (pendingDiagnostics (onDidCloseTextDocument doc s))"
  by (simp add: onDidCloseTextDocument_def Set_delete_def)

text \<open>
  Claim C3 says that after a close event the collection holds no entry for the document
  and the pending set does not contain it, also when a recomputation for the document
  was in flight at the moment of the close. The first half holds right after the close,
  as shown above. The second half does not: \<^verbatim>\<open>update\<close> sets the collection
  when its computation comes back, and nothing cancels or discards a computation started
  before the close. The run below opens the sample document, lets the delayer fire (one
  computation in flight), closes the document (no entry, nothing pending) and lets the
  computation come back: the collection again holds the three diagnostics of the closed
  document.
\<close>

theorem close_with_update_in_flight_republishes:
  "collection (handleAll ex_computer
      [(ex_world True error, DidOpenTextDocument ex_doc),
       (ex_world True error, DelayerFired),
       (ex_world0, DidCloseTextDocument ex_doc)]
      (DiagnosticManager_new ex_computer ex_world0)) ex_docUri = None \<and>
   pendingDiagnostics (handleAll ex_computer
      [(ex_world True error, DidOpenTextDocument ex_doc),
       (ex_world True error, DelayerFired),
       (ex_world0, DidCloseTextDocument ex_doc)]
      (DiagnosticManager_new ex_computer ex_world0)) = [] \<and>
   collection (handleAll ex_computer
      [(ex_world True error, DidOpenTextDocument ex_doc),
       (ex_world True error, DelayerFired),
       (ex_world0, DidCloseTextDocument ex_doc),
       (ex_world0, UpdateResolved 0)]
      (DiagnosticManager_new ex_computer ex_world0)) ex_docUri =
     Some [Diagnostic ((0, 46), (0, 58)) (invalidPathLink ex_missingUri) Error,
           Diagnostic ((0, 24), (0, 37)) (invalidReferenceLink ''undefined-ref'') Error,
           Diagnostic ((0, 7), (0, 15)) (invalidHeaderLink ''missing'') Error]"
proof -
  have c: "ex_computer ex_doc (ex_options True error) noopToken =
     [Diagnostic ((0, 46), (0, 58)) (invalidPathLink ex_missingUri) Error,
      Diagnostic ((0, 24), (0, 37)) (invalidReferenceLink ''undefined-ref'') Error,
      Diagnostic ((0, 7), (0, 15)) (invalidHeaderLink ''missing'') Error]"
    by (simp add: ex_computer_def DiagnosticComputer_getDiagnostics_def validateReferenceLinks_def
        validateOwnHeaderLinks_def definitionSet_lookup_def file_eval ex_defs)
  have new: "DiagnosticManager_new ex_computer ex_world0 = ex_idle"
    by (simp add: DiagnosticManager_new_def rebuild_def ex_world0_def ex_idle_def)
  have w: "textDocuments (ex_world True error) = [ex_doc]"
    "getOptions (ex_world True error) ex_docUri = ex_options True error"
    by (simp_all add: ex_world_def)
  have d: "doc_uri ex_doc = ex_docUri" "isMarkdownFile ex_doc" "enabled (ex_options True error)"
    by (simp_all add: ex_doc_def isMarkdownFile_def ex_options_def)
  show ?thesis
    unfolding new
    by (simp add: onDocUpdated_def onDidCloseTextDocument_def recomputePendingDiagnostics_def
        update_def updateResolved_def DiagnosticManager_getDiagnostics_eq
        Set_add_def Set_delete_def Let_def c w d ex_idle_def)
qed

section \<open>Claim C4: order of the diagnostics of one computation\<close>





section \<open>Claim C5: own-header validation\<close>

text \<open>
  Claim C5. For every internal link whose target path equals the document's own path
  and whose fragment is non-empty, a diagnostic is emitted exactly when the fragment is
  absent from the document's own table of contents: the result of the pass (with a level
  other than ignore, in a computation that is not cancelled) holds one diagnostic
  for each such link and nothing else, in the order of the links, each at its link's href
  range, with the message "No header found" for the link's fragment, and with the
  configured severity.
\<close>

theorem validateOwnHeaderLinks_reports_missing:
  assumes "toSeverity (validateOwnHeaders options) = Some severity" and "\<not> token AfterOwnToc"
  shows "validateOwnHeaderLinks env doc options links token =
     map (\<lambda>link. Diagnostic (hrefRange (source link)) (invalidHeaderLink (linkFragment link)) severity)
       (filter (brokenOwnHeaderLink env doc) links)"
  using assms by (simp add: validateOwnHeaderLinks_def ownHeaderLoop_eq)

text \<open>
  The sample document with \<^verbatim>\<open>validateOwnHeaders = error\<close>: without the header,
  exactly one error at the href range of \<^verbatim>\<open>#missing\<close>; with the header in the table
  of contents, none.
\<close>

theorem validateOwnHeaderLinks_reports_missing_witness:
  "validateOwnHeaderLinks (ex_env ex_links False False) ex_doc (ex_options True error) ex_links noopToken =
     [Diagnostic ((0, 7), (0, 15)) (invalidHeaderLink ''missing'') Error] \<and>
   validateOwnHeaderLinks (ex_env ex_links True False) ex_doc (ex_options True error) ex_links noopToken = []"
  using validateOwnHeaderLinks_reports_missing [of "ex_options True error" Error noopToken
      "ex_env ex_links False False" ex_doc ex_links]
    validateOwnHeaderLinks_reports_missing [of "ex_options True error" Error noopToken
      "ex_env ex_links True False" ex_doc ex_links]
  by (simp add: ex_defs brokenOwnHeaderLink_def linkFragment_def noopToken_def)

section \<open>Claim C6: file-path validation\<close>

text \<open>
  Claim C6. With a level other than ignore: the internal links are grouped by distinct
  target (the keys of the link map are distinct, they are exactly the targets some
  internal link refers to, and the entry of a key holds that target and all link sites
  referring to it, in document order). The result of the pass is the concatenation, over
  the targets in the order their tasks settle, of what each task reports; and a task that
  is not cancelled reports: nothing for a target that resolves to the validated document
  itself; for a target that resolves to another markdown document, one "header does not
  exist in file" diagnostic for each referencing link whose non-empty fragment is absent
  from that document's table of contents; for a target that resolves to no markdown
  document and does not exist as a path, exactly one "file does not exist" diagnostic
  per referencing link site; nothing when the path exists. Every diagnostic is at its
  link's href range and has the configured severity.
\<close>

theorem validateFileLinks_reports_per_target:
  assumes "toSeverity (validateFilePaths options) = Some severity"
  shows
    "distinct (map fst (FileLinkMap links)) \<and>
     (\<forall>k. k \<in> set (map fst (FileLinkMap links)) \<longleftrightarrow> linksTo k links \<noteq> []) \<and>
     (\<forall>(k, e)\<in>set (FileLinkMap links). toString (fl_path e) = k \<and> fl_links e = linksTo k links) \<and>
     (\<exists>order. mset order = mset (FileLinkMap_entries (FileLinkMap links)) \<and>
        validateFileLinks env sched doc options links token =
          concat (map (taskDiagnostics env doc severity token) order)) \<and>
     (\<forall>e. \<not> token (AtFileTask (toString (fl_path e))) \<longrightarrow>
        taskDiagnostics env doc severity token e =
          (case tryFindMdDocumentForLink env (fl_path e) of
             Some hrefDoc \<Rightarrow>
               if toString (doc_uri hrefDoc) = toString (doc_uri doc) then []
               else map (\<lambda>l. Diagnostic (hrefRange (fst l)) (invalidLinkToHeaderInOtherFile (snd l)) severity)
                      (filter (\<lambda>l. snd l \<noteq> [] \<and> \<not> tocLookup env hrefDoc (snd l)) (fl_links e))
           | None \<Rightarrow>
               if pathExists env (fl_path e) then []
               else map (\<lambda>l. Diagnostic (hrefRange (fst l)) (invalidPathLink (fl_path e)) severity)
                      (fl_links e)))"
proof -
  have "\<exists>order. mset order = mset (FileLinkMap_entries (FileLinkMap links)) \<and>
        validateFileLinks env sched doc options links token =
          concat (map (taskDiagnostics env doc severity token) order)"
    using validateFileLinks_order [of links env sched doc options token] assms by simp
  moreover have "\<forall>(k, e)\<in>set (FileLinkMap links). toString (fl_path e) = k \<and> fl_links e = linksTo k links"
    using FileLinkMap_entry by blast
  ultimately show ?thesis
    using FileLinkMap_distinct [of links] FileLinkMap_keys [of _ links]
    by (simp add: taskDiagnostics_def targetDiagnostics_def)
qed

text \<open>
  The sample document at level error: two targets (the document itself and
  \<^verbatim>\<open>missing.md\<close>); one "file does not exist" error at the href range of
  \<^verbatim>\<open>./missing.md\<close> while the file is missing, none once it exists; and one
  "header does not exist in file" error for the link into the other document.
\<close>

theorem validateFileLinks_reports_per_target_witness:
  "distinct (map fst (FileLinkMap ex_links)) \<and>
   map fst (FileLinkMap ex_links) = [''file:///ws/doc.md'', ''file:///ws/missing.md''] \<and>
   validateFileLinks (ex_env ex_links False False) [] ex_doc (ex_options True error) ex_links noopToken =
     [Diagnostic ((0, 46), (0, 58)) (invalidPathLink ex_missingUri) Error] \<and>
   validateFileLinks (ex_env ex_links False True) [] ex_doc (ex_options True error) ex_links noopToken = [] \<and>
   validateFileLinks ex_envOther [] ex_doc (ex_options True error) [ex_otherLink] noopToken =
     [Diagnostic ((2, 7), (2, 22)) (invalidLinkToHeaderInOtherFile ''nope'') Error]"
proof -
  have sev: "toSeverity (validateFilePaths (ex_options True error)) = Some Error"
    by (simp add: ex_options_def)
  have "distinct (map fst (FileLinkMap ex_links))"
    by (rule validateFileLinks_reports_per_target [OF sev, THEN conjunct1])
  moreover have "map fst (FileLinkMap ex_links) = [''file:///ws/doc.md'', ''file:///ws/missing.md'']"
    by (simp add: FileLinkMap_def ex_defs Let_def)
  moreover have "validateFileLinks (ex_env ex_links False False) [] ex_doc (ex_options True error) ex_links noopToken =
     [Diagnostic ((0, 46), (0, 58)) (invalidPathLink ex_missingUri) Error]"
    by (simp add: file_eval ex_defs)
  moreover have "validateFileLinks (ex_env ex_links False True) [] ex_doc (ex_options True error) ex_links noopToken = []"
    by (simp add: file_eval ex_defs)
  moreover have "validateFileLinks ex_envOther [] ex_doc (ex_options True error) [ex_otherLink] noopToken =
     [Diagnostic ((2, 7), (2, 22)) (invalidLinkToHeaderInOtherFile ''nope'') Error]"
    by (simp add: file_eval ex_defs)
  ultimately show ?thesis by simp
qed

section \<open>Claim C7: reference validation\<close>

text \<open>
  Claim C7. For every link of kind reference whose reference name has no matching
  definition among the definitions of the same document's links, exactly one diagnostic
  is emitted: the result of the pass (with a level other than ignore) holds one
  diagnostic for each such link and nothing else, in the order of the links, each at its
  link's href range, with the message "No link reference found" for the link's reference
  name, and with the configured severity.
\<close>

theorem validateReferenceLinks_reports_undefined:
  assumes "toSeverity (validateReferences options) = Some severity"
  shows "validateReferenceLinks options links =
     map (\<lambda>link. Diagnostic (hrefRange (source link)) (invalidReferenceLink (referenceName link)) severity)
       (filter (undefinedReference links) links)"
proof -
  have "(\<lambda>link. case href link of ReferenceHref r \<Rightarrow> LinkDefinitionSet links Map.empty r = None
          | InternalHref p f \<Rightarrow> False | ExternalHref u \<Rightarrow> False) = undefinedReference links"
    by (auto simp: fun_eq_iff undefinedReference_def LinkDefinitionSet_None split: LinkHref.splits)
  then show ?thesis
    using assms by (simp add: validateReferenceLinks_def referenceLoop_eq)
qed

text \<open>
  The sample document with \<^verbatim>\<open>validateReferences = warning\<close>: exactly one warning at
  the href range of \<^verbatim>\<open>[undefined-ref]\<close>; with the definition
  \<^verbatim>\<open>[undefined-ref]: url\<close> added to the links, none.
\<close>

theorem validateReferenceLinks_reports_undefined_witness:
  "validateReferenceLinks (ex_options True warning) ex_links =
     [Diagnostic ((0, 24), (0, 37)) (invalidReferenceLink ''undefined-ref'') Warning] \<and>
   validateReferenceLinks (ex_options True warning) (ex_links @ [ex_refDefinition]) = []"
  using validateReferenceLinks_reports_undefined [of "ex_options True warning" Warning ex_links]
    validateReferenceLinks_reports_undefined [of "ex_options True warning" Warning
      "ex_links @ [ex_refDefinition]"]
  by (simp add: ex_defs undefinedReference_def definesReference_def referenceName_def)

section \<open>Claim C8: configuration changes and the rebuild\<close>

text \<open>
  The manager's handler of its configuration's change notification. It first clears the
  whole published collection, so that at once no document has a published diagnostic,
  whatever was published before; the pending set is left alone; and it starts one
  recomputation for exactly the open markdown documents that a text tab of some tab
  group shows, in the order of \<^verbatim>\<open>textDocuments\<close>. When no older computation is in
  flight and these come back, the collection holds entries for exactly these documents,
  each with the diagnostics computed for it. When validation is turned off for the open
  documents, every one of these recomputations carries the empty list, and nothing is
  published again.
\<close>

lemma configuration_change_rebuilds:
  "collection (handle computer w ConfigurationDidChange s) = Map.empty \<and>
   (\<forall>resource. published (handle computer w ConfigurationDidChange s) resource = []) \<and>
   pendingDiagnostics (handle computer w ConfigurationDidChange s) = pendingDiagnostics s \<and>
   inFlight (handle computer w ConfigurationDidChange s) =
     inFlight s @ map (started computer w) (visibleMarkdownDocuments w) \<and>
   (inFlight s = [] \<longrightarrow>
      collection (resolveAll (handle computer w ConfigurationDidChange s)) =
        map_of (rev (map (started computer w) (visibleMarkdownDocuments w))) \<and>
      dom (collection (resolveAll (handle computer w ConfigurationDidChange s))) =
        doc_uri ` set (visibleMarkdownDocuments w)) \<and>
   ((\<forall>doc\<in>set (textDocuments w). \<not> enabled (getOptions w (doc_uri doc))) \<longrightarrow>
      (\<forall>doc\<in>set (visibleMarkdownDocuments w). snd (started computer w doc) = []) \<and>
      (inFlight s = [] \<longrightarrow>
         (\<forall>resource. published (resolveAll (handle computer w ConfigurationDidChange s)) resource = [])))"
proof -
  let ?new = "map (started computer w) (visibleMarkdownDocuments w)"
  let ?s = "handle computer w ConfigurationDidChange s"
  have s: "?s = s\<lparr>collection := Map.empty, inFlight := inFlight s @ ?new\<rparr>"
    by (simp add: rebuild_eq)
  have c: "collection (resolveAll ?s) = map_of (rev ?new)" if "inFlight s = []"
    using that unfolding resolveAll_eq s by simp
  have d: "dom (map_of (rev ?new)) = doc_uri ` set (visibleMarkdownDocuments w)"
    by (simp add: dom_map_of_conv_image_fst image_image started_def)
  have off: "snd (started computer w doc) = []"
    if "\<forall>doc\<in>set (textDocuments w). \<not> enabled (getOptions w (doc_uri doc))"
      and "doc \<in> set (visibleMarkdownDocuments w)" for doc
    using that by (simp add: started_def DiagnosticManager_getDiagnostics_eq visibleMarkdownDocuments_def)
  have p: "published (resolveAll ?s) resource = []"
    if "\<forall>doc\<in>set (textDocuments w). \<not> enabled (getOptions w (doc_uri doc))" and "inFlight s = []"
    for resource
  proof -
    have "\<forall>entry\<in>set ?new. snd entry = []"
      using off [OF that(1)] by auto
    then show ?thesis
      unfolding published_def c [OF that(2)] by (rule published_all_empty)
  qed
  have now: "collection ?s = Map.empty" "\<forall>resource. published ?s resource = []"
    "pendingDiagnostics ?s = pendingDiagnostics s" "inFlight ?s = inFlight s @ ?new"
    unfolding s by (simp_all add: published_def)
  have later: "inFlight s = [] \<longrightarrow>
      collection (resolveAll ?s) = map_of (rev ?new) \<and>
      dom (collection (resolveAll ?s)) = doc_uri ` set (visibleMarkdownDocuments w)"
    using c d by simp
  have turned_off: "(\<forall>doc\<in>set (textDocuments w). \<not> enabled (getOptions w (doc_uri doc))) \<longrightarrow>
      (\<forall>doc\<in>set (visibleMarkdownDocuments w). snd (started computer w doc) = []) \<and>
      (inFlight s = [] \<longrightarrow> (\<forall>resource. published (resolveAll ?s) resource = []))"
    using off p by blast
  from now later turned_off show ?thesis
    by blast
qed

text \<open>
  The sample document is open in a text tab and has one published diagnostic. A
  notification after validation was turned off: the diagnostic is gone at once, the one
  recomputation carries the empty list, and nothing is published when it comes back. A
  notification with validation on: the collection ends with an entry for exactly the
  sample document.
\<close>

lemma configuration_change_rebuilds_example:
  "published ex_published ex_docUri \<noteq> [] \<and>
   published (handle ex_computer (ex_world False error) ConfigurationDidChange ex_published) ex_docUri = [] \<and>
   inFlight (handle ex_computer (ex_world False error) ConfigurationDidChange ex_published) =
     [(ex_docUri, [])] \<and>
   published (resolveAll (handle ex_computer (ex_world False error) ConfigurationDidChange ex_published))
     ex_docUri = [] \<and>
   dom (collection (resolveAll (handle ex_computer (ex_world True error) ConfigurationDidChange ex_published))) =
     {ex_docUri}"
proof -
  note off = configuration_change_rebuilds [where computer = ex_computer and w = "ex_world False error"
      and s = ex_published]
  note on = configuration_change_rebuilds [where computer = ex_computer and w = "ex_world True error"
      and s = ex_published]
  have v: "visibleMarkdownDocuments (ex_world b error) = [ex_doc]" for b
    by (simp add: visibleMarkdownDocuments_def inTextTab_def tabShows_def isMarkdownFile_def ex_defs)
  have idle: "inFlight ex_published = []"
    by (simp add: ex_published_def ex_idle_def)
  have disabled: "\<forall>doc\<in>set (textDocuments (ex_world False error)).
      \<not> enabled (getOptions (ex_world False error) (doc_uri doc))"
    by (simp add: ex_world_def ex_options_def)
  have "published ex_published ex_docUri \<noteq> []"
    by (simp add: published_def ex_published_def ex_idle_def)
  moreover have "published (handle ex_computer (ex_world False error) ConfigurationDidChange ex_published)
      ex_docUri = []"
    using off by blast
  moreover have "snd (started ex_computer (ex_world False error) ex_doc) = []"
    using off disabled v [of False] by simp
  then have "inFlight (handle ex_computer (ex_world False error) ConfigurationDidChange ex_published) =
      [(ex_docUri, [])]"
    using off idle v [of False] by (simp add: started_def ex_doc_def)
  moreover have "published (resolveAll (handle ex_computer (ex_world False error) ConfigurationDidChange
      ex_published)) ex_docUri = []"
    using off disabled idle by blast
  moreover have "dom (collection (resolveAll (handle ex_computer (ex_world True error)
      ConfigurationDidChange ex_published))) = {ex_docUri}"
    using on idle v [of True] by (simp add: started_def ex_doc_def)
  ultimately show ?thesis by simp
qed

text \<open>
  The notification itself is guarded: a workspace configuration change reaches the
  manager exactly when it affects the \<^verbatim>\<open>enabled\<close> setting, and any other change
  leaves the manager as it was.
\<close>

lemma onDidChangeConfiguration_guard:
  "onDidChangeConfiguration computer w affectsConfiguration s =
     (if affectsConfiguration ''markdown.experimental.validate.enabled''
      then rebuild computer w s
      else s)"
  by (simp add: onDidChangeConfiguration_def VSCodeDiagnosticConfiguration_fires_def)

text \<open>
  Claim C8 says that on every configuration change the manager clears the published
  collection and recomputes for the open markdown documents shown in a tab group. The
  manager's handler does so, as shown above, but the configuration that
  \<^verbatim>\<open>register\<close> gives the manager fires its change notification only for a change
  that affects the \<^verbatim>\<open>enabled\<close> setting, although \<^verbatim>\<open>getOptions\<close> also reads the
  three level settings and the notification is documented as fired when the
  configuration changes. In the run below the three diagnostics of the sample document
  are published at level error and the user sets the header-link level to ignore. The
  change does not affect the \<^verbatim>\<open>enabled\<close> setting: nothing is cleared and nothing is
  recomputed, and the header diagnostic stays published, while under the new options the
  document has two diagnostics, which is what a rebuild would publish.
\<close>

theorem level_change_does_not_rebuild:
  "\<not> VSCodeDiagnosticConfiguration_fires ex_headerLinksChanged \<and>
   onDidChangeConfiguration ex_computer ex_worldHeadersOff ex_headerLinksChanged ex_publishedAll =
     ex_publishedAll \<and>
   published ex_publishedAll ex_docUri =
     [Diagnostic ((0, 46), (0, 58)) (invalidPathLink ex_missingUri) Error,
      Diagnostic ((0, 24), (0, 37)) (invalidReferenceLink ''undefined-ref'') Error,
      Diagnostic ((0, 7), (0, 15)) (invalidHeaderLink ''missing'') Error] \<and>
   inFlight ex_publishedAll = [] \<and>
   DiagnosticManager_getDiagnostics ex_computer ex_worldHeadersOff ex_doc noopToken =
     [Diagnostic ((0, 46), (0, 58)) (invalidPathLink ex_missingUri) Error,
      Diagnostic ((0, 24), (0, 37)) (invalidReferenceLink ''undefined-ref'') Error] \<and>
   published (resolveAll (handle ex_computer ex_worldHeadersOff ConfigurationDidChange ex_publishedAll))
      ex_docUri =
     [Diagnostic ((0, 46), (0, 58)) (invalidPathLink ex_missingUri) Error,
      Diagnostic ((0, 24), (0, 37)) (invalidReferenceLink ''undefined-ref'') Error]"
proof -
  have quiet: "\<not> VSCodeDiagnosticConfiguration_fires ex_headerLinksChanged"
    by (simp add: VSCodeDiagnosticConfiguration_fires_def ex_headerLinksChanged_def)
  then have same: "onDidChangeConfiguration ex_computer ex_worldHeadersOff ex_headerLinksChanged
      ex_publishedAll = ex_publishedAll"
    by (simp add: onDidChangeConfiguration_def)
  have old: "published ex_publishedAll ex_docUri =
     [Diagnostic ((0, 46), (0, 58)) (invalidPathLink ex_missingUri) Error,
      Diagnostic ((0, 24), (0, 37)) (invalidReferenceLink ''undefined-ref'') Error,
      Diagnostic ((0, 7), (0, 15)) (invalidHeaderLink ''missing'') Error]"
    and idle: "inFlight ex_publishedAll = []"
    by (simp_all add: published_def ex_publishedAll_def ex_idle_def)
  have c: "ex_computer ex_doc ex_optionsHeadersOff noopToken =
     [Diagnostic ((0, 46), (0, 58)) (invalidPathLink ex_missingUri) Error,
      Diagnostic ((0, 24), (0, 37)) (invalidReferenceLink ''undefined-ref'') Error]"
    by (simp add: ex_computer_def ex_optionsHeadersOff_def DiagnosticComputer_getDiagnostics_def
        validateReferenceLinks_def validateOwnHeaderLinks_def definitionSet_lookup_def file_eval
        ex_defs)
  have o: "getOptions ex_worldHeadersOff (doc_uri ex_doc) = ex_optionsHeadersOff"
    "enabled ex_optionsHeadersOff"
    by (simp_all add: ex_worldHeadersOff_def ex_optionsHeadersOff_def ex_options_def)
  have fresh: "DiagnosticManager_getDiagnostics ex_computer ex_worldHeadersOff ex_doc noopToken =
     [Diagnostic ((0, 46), (0, 58)) (invalidPathLink ex_missingUri) Error,
      Diagnostic ((0, 24), (0, 37)) (invalidReferenceLink ''undefined-ref'') Error]"
    by (simp add: DiagnosticManager_getDiagnostics_eq o c)
  have v: "visibleMarkdownDocuments ex_worldHeadersOff = [ex_doc]"
    by (simp add: visibleMarkdownDocuments_def inTextTab_def tabShows_def isMarkdownFile_def
        ex_worldHeadersOff_def ex_doc_def ex_docUri_def)
  have d: "doc_uri ex_doc = ex_docUri"
    by (simp add: ex_doc_def)
  have rebuilt: "published (resolveAll (handle ex_computer ex_worldHeadersOff ConfigurationDidChange
      ex_publishedAll)) ex_docUri =
     [Diagnostic ((0, 46), (0, 58)) (invalidPathLink ex_missingUri) Error,
      Diagnostic ((0, 24), (0, 37)) (invalidReferenceLink ''undefined-ref'') Error]"
    by (simp add: rebuild_eq resolveAll_eq published_def v started_def fresh d idle)
  from quiet same old idle fresh rebuilt show ?thesis
    by simp
qed

section \<open>Claim C9: at most ten file tasks in flight\<close>

text \<open>
  Claim C9. During one run of the file-path pass (level other than ignore), whatever
  the number of distinct targets and whatever the order in which tasks settle: once all
  tasks are queued, the first ten are in flight and the rest wait in submission order; in
  every state the run can reach, at most ten tasks are in flight, and tasks wait only
  while all ten slots are taken; every run ends, with no task in flight and none
  waiting; and in the finished run, for every distinct target whose task was not
  cancelled, the document lookup has been made exactly once and the existence check
  exactly once when the lookup found no document, and never otherwise. A task makes one
  collaborator call at a time, so the calls in flight are bounded by the tasks in flight.
\<close>

theorem validateFileLinks_at_most_ten_in_flight:
  assumes "toSeverity (validateFilePaths options) = Some severity"
  shows
    "running (queuedRun links) = take 10 (FileLinkMap_entries (FileLinkMap links)) \<and>
     outstanding (queuedRun links) = drop 10 (FileLinkMap_entries (FileLinkMap links)) \<and>
     (\<forall>s. reachable 10 (fileTask env doc severity token) (queuedRun links) s \<longrightarrow>
        length (running s) \<le> 10 \<and> (outstanding s \<noteq> [] \<longrightarrow> length (running s) = 10)) \<and>
     reachable 10 (fileTask env doc severity token) (queuedRun links)
       (validateFileLinks_run env sched doc options links token) \<and>
     running (validateFileLinks_run env sched doc options links token) = [] \<and>
     outstanding (validateFileLinks_run env sched doc options links token) = [] \<and>
     (\<forall>e\<in>set (FileLinkMap_entries (FileLinkMap links)).
        \<not> token (AtFileTask (toString (fl_path e))) \<longrightarrow>
        count_list (calls (validateFileLinks_run env sched doc options links token))
          (FindMdDocument (fl_path e)) = 1 \<and>
        count_list (calls (validateFileLinks_run env sched doc options links token))
          (PathExists (fl_path e)) =
            (if tryFindMdDocumentForLink env (fl_path e) = None then 1 else 0))"
proof -
  have "length (running s) \<le> 10 \<and> (outstanding s \<noteq> [] \<longrightarrow> length (running s) = 10)"
    if "reachable 10 (fileTask env doc severity token) (queuedRun links) s" for s
    using that by (rule reachable_bound) (simp_all add: queuedRun_eq)
  then show ?thesis
    using validateFileLinks_run_final [OF assms] validateFileLinks_run_calls [OF assms]
      fileTask_calls_own
    by (simp add: queuedRun_eq)
qed

text \<open>
  A document with twelve distinct targets: ten tasks start, two wait; after the task in
  slot 3 settles, ten are in flight again; in the run where slots 3, 0 and 9 settle first,
  the last target is looked up exactly once.
\<close>

theorem validateFileLinks_at_most_ten_in_flight_witness:
  "length (FileLinkMap_entries (FileLinkMap ex_manyLinks)) = 12 \<and>
   length (running (queuedRun ex_manyLinks)) = 10 \<and>
   length (outstanding (queuedRun ex_manyLinks)) = 2 \<and>
   length (running (settle 10 (fileTask (ex_env ex_manyLinks False False) ex_doc Error noopToken) 3
      (queuedRun ex_manyLinks))) = 10 \<and>
   count_list (calls (validateFileLinks_run (ex_env ex_manyLinks False False) [3, 0, 9] ex_doc
      (ex_options True error) ex_manyLinks noopToken)) (FindMdDocument (ex_target 11)) = 1"
proof -
  let ?task = "fileTask (ex_env ex_manyLinks False False) ex_doc Error noopToken"
  let ?entries = "FileLinkMap_entries (FileLinkMap ex_manyLinks)"
  let ?final = "validateFileLinks_run (ex_env ex_manyLinks False False) [3, 0, 9] ex_doc
      (ex_options True error) ex_manyLinks noopToken"
  have sev: "toSeverity (validateFilePaths (ex_options True error)) = Some Error"
    by (simp add: ex_options_def)
  note t = validateFileLinks_at_most_ten_in_flight [OF sev, where links = ex_manyLinks
      and env = "ex_env ex_manyLinks False False" and doc = ex_doc and token = noopToken
      and sched = "[3, 0, 9]"]
  have l: "length ?entries = 12"
    by code_simp
  have r: "length (running (queuedRun ex_manyLinks)) = 10"
    using t [THEN conjunct1] l by simp
  have out: "length (outstanding (queuedRun ex_manyLinks)) = 2"
    using t [THEN conjunct2, THEN conjunct1] l by simp
  have bound: "\<forall>s. reachable 10 ?task (queuedRun ex_manyLinks) s \<longrightarrow>
      length (running s) \<le> 10 \<and> (outstanding s \<noteq> [] \<longrightarrow> length (running s) = 10)"
    by (rule t [THEN conjunct2, THEN conjunct2, THEN conjunct1])
  have "reachable 10 ?task (queuedRun ex_manyLinks) (settle 10 ?task 3 (queuedRun ex_manyLinks))"
    using r by (intro reachable.settled reachable.start) simp
  moreover have "outstanding (settle 10 ?task 3 (queuedRun ex_manyLinks)) \<noteq> []"
    using r out by (simp add: settle_fields)
  ultimately have s: "length (running (settle 10 ?task 3 (queuedRun ex_manyLinks))) = 10"
    using bound by blast
  have once: "\<forall>e\<in>set ?entries. \<not> noopToken (AtFileTask (toString (fl_path e))) \<longrightarrow>
      count_list (calls ?final) (FindMdDocument (fl_path e)) = 1 \<and>
      count_list (calls ?final) (PathExists (fl_path e)) =
        (if tryFindMdDocumentForLink (ex_env ex_manyLinks False False) (fl_path e) = None then 1 else 0)"
    by (rule t [THEN conjunct2, THEN conjunct2, THEN conjunct2, THEN conjunct2, THEN conjunct2,
          THEN conjunct2])
  have m: "?entries ! 11 \<in> set ?entries"
    using l by (intro nth_mem) simp
  have p: "fl_path (?entries ! 11) = ex_target 11"
    by code_simp
  have "\<not> noopToken (AtFileTask (toString (fl_path (?entries ! 11))))"
    by (simp add: noopToken_def)
  then have "count_list (calls ?final) (FindMdDocument (fl_path (?entries ! 11))) = 1"
    using once m by blast
  then show ?thesis
    using l r out s p by simp
qed

section \<open>Claim C10: the debounce callback matches pending uris by fsPath\<close>

text \<open>
  Claim C10. When the debounce timer fires (the delayer holding a triggered task), the
  pending set is drained and nothing is re-armed or published by the callback itself;
  for each pending uri, in order, a recomputation is started exactly when some open text
  document has the same \<^verbatim>\<open>fsPath\<close>, and then for the first such document in
  \<^verbatim>\<open>textDocuments\<close>, to be published under that document's own uri; a pending uri
  without such a document starts nothing and is gone from the pending set. Open documents
  whose uris differ only outside \<^verbatim>\<open>fsPath\<close> are therefore not told apart.
\<close>

theorem delayer_fire_matches_by_fsPath:
  assumes "delayerArmed s"
  shows
    "pendingDiagnostics (handle computer w DelayerFired s) = [] \<and>
     \<not> delayerArmed (handle computer w DelayerFired s) \<and>
     collection (handle computer w DelayerFired s) = collection s \<and>
     inFlight (handle computer w DelayerFired s) =
       inFlight s @ concat (map (startedFor computer w) (pendingDiagnostics s)) \<and>
     (\<forall>resource. (\<forall>doc\<in>set (textDocuments w). fsPath (doc_uri doc) \<noteq> fsPath resource) \<longrightarrow>
        startedFor computer w resource = []) \<and>
     (\<forall>resource before doc after.
        textDocuments w = before @ doc # after \<and> fsPath (doc_uri doc) = fsPath resource \<and>
        (\<forall>d\<in>set before. fsPath (doc_uri d) \<noteq> fsPath resource) \<longrightarrow>
        startedFor computer w resource =
          [(doc_uri doc, DiagnosticManager_getDiagnostics computer w doc noopToken)])"
proof -
  have none: "startedFor computer w resource = []"
    if "\<forall>doc\<in>set (textDocuments w). fsPath (doc_uri doc) \<noteq> fsPath resource" for resource
  proof -
    have "find (\<lambda>doc. fsPath (doc_uri doc) = fsPath resource) (textDocuments w) = None"
      using that by (simp add: find_None_iff)
    then show ?thesis by (simp add: startedFor_def)
  qed
  have first: "startedFor computer w resource =
      [(doc_uri doc, DiagnosticManager_getDiagnostics computer w doc noopToken)]"
    if "textDocuments w = before @ doc # after" and "fsPath (doc_uri doc) = fsPath resource"
      and "\<forall>d\<in>set before. fsPath (doc_uri d) \<noteq> fsPath resource"
    for resource before doc after
  proof -
    have "find (\<lambda>doc. fsPath (doc_uri doc) = fsPath resource) (before @ doc # after) = Some doc"
      using that(2,3) by (intro find_first) auto
    then show ?thesis using that(1) by (simp add: startedFor_def started_def)
  qed
  show ?thesis
    using assms none first by (simp add: recomputePendingDiagnostics_eq)
qed

text \<open>
  Two documents with the same \<^verbatim>\<open>fsPath\<close> are open, the one of the \<^verbatim>\<open>git\<close>
  scheme first; the \<^verbatim>\<open>file\<close> uri and the uri of a document that is not open are
  pending. The callback starts one computation, for the \<^verbatim>\<open>git\<close> document and under
  its uri, and the pending set is empty.
\<close>

theorem delayer_fire_matches_by_fsPath_witness:
  "handle ex_computer ex_worldGit DelayerFired
      (ex_idle\<lparr>pendingDiagnostics := [ex_docUri, ex_otherUri], delayerArmed := True\<rparr>) =
     ex_idle\<lparr>inFlight :=
       [(ex_gitUri, DiagnosticManager_getDiagnostics ex_computer ex_worldGit ex_gitDoc noopToken)]\<rparr>"
proof -
  let ?s = "ex_idle\<lparr>pendingDiagnostics := [ex_docUri, ex_otherUri], delayerArmed := True\<rparr>"
  have armed: "delayerArmed ?s"
    by simp
  note t = delayer_fire_matches_by_fsPath [OF armed, where computer = ex_computer and w = ex_worldGit]
  have other: "startedFor ex_computer ex_worldGit ex_otherUri = []"
    using t by (simp add: ex_defs)
  have "textDocuments ex_worldGit = [] @ ex_gitDoc # [ex_doc] \<and>
      fsPath (doc_uri ex_gitDoc) = fsPath ex_docUri \<and>
      (\<forall>d\<in>set []. fsPath (doc_uri d) \<noteq> fsPath ex_docUri)"
    by (simp add: ex_defs)
  then have doc: "startedFor ex_computer ex_worldGit ex_docUri =
      [(doc_uri ex_gitDoc, DiagnosticManager_getDiagnostics ex_computer ex_worldGit ex_gitDoc noopToken)]"
    using t by blast
  have "inFlight (handle ex_computer ex_worldGit DelayerFired ?s) =
      [(ex_gitUri, DiagnosticManager_getDiagnostics ex_computer ex_worldGit ex_gitDoc noopToken)]"
    using t other doc by (simp add: ex_idle_def ex_gitDoc_def)
  moreover have "pendingDiagnostics (handle ex_computer ex_worldGit DelayerFired ?s) = []"
    and "\<not> delayerArmed (handle ex_computer ex_worldGit DelayerFired ?s)"
    and "collection (handle ex_computer ex_worldGit DelayerFired ?s) = Map.empty"
    using t by (simp_all add: ex_idle_def)
  ultimately show ?thesis
    by (simp add: ex_idle_def)
qed

end
